theory Spec2Isabelle
  imports Complex_Main
begin

section \<open>The falling-block engine of src/tetris/game.js\<close>

text \<open>
  The engine keeps its session in the closure variables \<open>grid\<close>, \<open>score\<close>, \<open>lines\<close>,
  \<open>level\<close>, \<open>current\<close>, \<open>next\<close>, \<open>dropInterval\<close>, \<open>lastTime\<close>, \<open>dropAccum\<close>,
  \<open>paused\<close>, \<open>over\<close>, \<open>holdType\<close> and \<open>holdUsed\<close>. The model passes them as one record.
  Canvas drawing, the HUD and the sound effects read the session and never write it;
  they are left out. Each value that \<open>Math.random\<close> or \<open>performance.now\<close> supplies is
  an argument of the function that asks for it.

  Names follow the source, except where Isabelle needs the word: the fields \<open>type\<close>,
  \<open>x\<close> and \<open>y\<close> of a piece are \<open>ptype\<close>, \<open>px\<close> and \<open>py\<close>, the variable \<open>next\<close> is
  \<open>next_piece\<close> and the function \<open>rotate\<close> is \<open>rotate_piece\<close>.

  Counters and coordinates are integers without bound (the doubles of the source are
  exact on integers far beyond any score). Clock readings are real numbers.
\<close>

subsection \<open>Values\<close>

text \<open>
  The JavaScript values the engine computes with: numbers that stay integral
  (the score, the entries of the scoring table), \<open>undefined\<close> (an index beyond the
  scoring table, the value of a call without \<open>return\<close>) and \<open>NaN\<close> (arithmetic on
  \<open>undefined\<close>).
\<close>

datatype jsval = Undefined | NaN | Number int

fun js_times :: "jsval \<Rightarrow> int \<Rightarrow> jsval" where
  "js_times (Number a) b = Number (a * b)"
| "js_times Undefined b = NaN"
| "js_times NaN b = NaN"

fun js_plus :: "jsval \<Rightarrow> jsval \<Rightarrow> jsval" where
  "js_plus (Number a) (Number b) = Number (a + b)"
| "js_plus a b = NaN"

text \<open>The remainder \<open>a % b\<close> for \<open>b > 0\<close>: it has the sign of \<open>a\<close>.\<close>

definition js_rem :: "int \<Rightarrow> int \<Rightarrow> int" where
  "js_rem a b = (if a < 0 then - ((- a) mod b) else a mod b)"

text \<open>A raised exception is \<open>Inl\<close>; \<open>thenE\<close> runs the next statement unless one was raised.\<close>

datatype error = TypeError

definition thenE :: "error + 'a \<Rightarrow> ('a \<Rightarrow> error + 'b) \<Rightarrow> error + 'b" where
  "thenE m f = (case m of Inl e \<Rightarrow> Inl e | Inr v \<Rightarrow> f v)"

subsection \<open>Constants, pieces and the grid\<close>

definition COLS :: int where "COLS = 10"
definition ROWS :: int where "ROWS = 20"

datatype tetro = TetI | TetO | TetT | TetS | TetZ | TetJ | TetL

fun COLORS :: "tetro \<Rightarrow> string" where
  "COLORS TetI = ''#00ffff''"
| "COLORS TetO = ''#f1e05a''"
| "COLORS TetT = ''#a970ff''"
| "COLORS TetS = ''#00ff9c''"
| "COLORS TetZ = ''#ff4d6d''"
| "COLORS TetJ = ''#4dabf7''"
| "COLORS TetL = ''#ffb74d''"

fun SHAPES :: "tetro \<Rightarrow> (int \<times> int) list" where
  "SHAPES TetI = [(0,1),(1,1),(2,1),(3,1)]"
| "SHAPES TetO = [(1,0),(2,0),(1,1),(2,1)]"
| "SHAPES TetT = [(1,0),(0,1),(1,1),(2,1)]"
| "SHAPES TetS = [(1,1),(2,1),(0,2),(1,2)]"
| "SHAPES TetZ = [(0,1),(1,1),(1,2),(2,2)]"
| "SHAPES TetJ = [(0,0),(0,1),(1,1),(2,1)]"
| "SHAPES TetL = [(2,0),(0,1),(1,1),(2,1)]"

text \<open>
  A piece is the object \<open>{type, shape, x, y, rot, color}\<close>; a cell of the shape is the
  pair of its \<open>x\<close> and \<open>y\<close> offsets.

  A row of the grid is a JavaScript array. Its elements are \<open>null\<close> or a colour string;
  an index beyond the ones \<open>createGrid\<close> filled may also be a hole, which reads as
  \<open>undefined\<close> and which \<open>every\<close> passes over.
\<close>

record piece =
  ptype :: tetro
  shape :: "(int \<times> int) list"
  px :: int
  py :: int
  rot :: int
  color :: string

datatype cell = Hole | Null | Colour string

type_synonym grid = "cell list list"

definition truthy :: "cell \<Rightarrow> bool" where
  "truthy c = (case c of Colour s \<Rightarrow> s \<noteq> [] | _ \<Rightarrow> False)"

definition emptyRow :: "cell list" where
  "emptyRow = replicate (nat COLS) Null"

definition createGrid :: "int \<Rightarrow> int \<Rightarrow> grid" where
  "createGrid w h = replicate (nat h) (replicate (nat w) Null)"

definition pieceFromType :: "tetro \<Rightarrow> piece" where
  "pieceFromType t =
     \<lparr>ptype = t, shape = SHAPES t, px = 3, py = - 2, rot = 0, color = COLORS t\<rparr>"

text \<open>\<open>randomPiece\<close>: the argument is the kind that the uniform draw selected.\<close>

definition randomPiece :: "tetro \<Rightarrow> piece" where
  "randomPiece t = pieceFromType t"

definition rotate_piece :: "piece \<Rightarrow> piece" where
  "rotate_piece p =
     p\<lparr>rot := js_rem (rot p + 1) 4, shape := map (\<lambda>(cx, cy). (2 - cy, cx)) (shape p)\<rparr>"

text \<open>
  \<open>grid[gy]\<close> is \<open>undefined\<close> when the grid has no row \<open>gy\<close>, and indexing or calling a
  method on it raises TypeError. \<open>row[gx]\<close> beyond the row is \<open>undefined\<close>, as a hole is;
  both are falsy.
\<close>

definition getRow :: "grid \<Rightarrow> int \<Rightarrow> error + cell list" where
  "getRow g gy = (if 0 \<le> gy \<and> gy < int (length g) then Inr (g ! nat gy) else Inl TypeError)"

definition getCell :: "cell list \<Rightarrow> int \<Rightarrow> cell" where
  "getCell r gx = (if 0 \<le> gx \<and> gx < int (length r) then r ! nat gx else Hole)"

fun collidesCells :: "grid \<Rightarrow> int \<Rightarrow> int \<Rightarrow> (int \<times> int) list \<Rightarrow> error + bool" where
  "collidesCells g x0 y0 [] = Inr False"
| "collidesCells g x0 y0 ((cx, cy) # cs) =
     (let gx = x0 + cx; gy = y0 + cy in
      if gy < 0 then collidesCells g x0 y0 cs
      else if gx < 0 \<or> gx \<ge> COLS \<or> gy \<ge> ROWS then Inr True
      else thenE (getRow g gy) (\<lambda>r.
        if truthy (getCell r gx) then Inr True else collidesCells g x0 y0 cs))"

definition collides :: "grid \<Rightarrow> piece \<Rightarrow> error + bool" where
  "collides g p = collidesCells g (px p) (py p) (shape p)"

text \<open>
  \<open>merge\<close> writes \<open>grid[gy][gx] = p.color\<close> for the cells with \<open>gy \<ge> 0\<close>. Without a row
  \<open>gy\<close> the write raises TypeError. A write at a negative \<open>gx\<close> sets a property of
  the array and none of its elements; a write at or beyond the length of the row
  makes the row longer, with holes up to the new element.
\<close>

definition setCell :: "cell list \<Rightarrow> int \<Rightarrow> cell \<Rightarrow> cell list" where
  "setCell r gx v =
     (if gx < 0 then r
      else if gx < int (length r) then r[nat gx := v]
      else r @ replicate (nat gx - length r) Hole @ [v])"

fun mergeCells :: "grid \<Rightarrow> int \<Rightarrow> int \<Rightarrow> string \<Rightarrow> (int \<times> int) list \<Rightarrow> error + grid" where
  "mergeCells g x0 y0 c [] = Inr g"
| "mergeCells g x0 y0 c ((cx, cy) # cs) =
     (let gx = x0 + cx; gy = y0 + cy in
      if gy \<ge> 0
      then thenE (getRow g gy) (\<lambda>r. mergeCells (g[nat gy := setCell r gx (Colour c)]) x0 y0 c cs)
      else mergeCells g x0 y0 c cs)"

definition merge :: "grid \<Rightarrow> piece \<Rightarrow> error + grid" where
  "merge g p = mergeCells g (px p) (py p) (color p) (shape p)"

subsection \<open>The session\<close>

record state =
  grid :: grid
  score :: jsval
  lines :: int
  level :: int
  current :: "piece option"
  next_piece :: piece
  dropInterval :: int
  lastTime :: real
  dropAccum :: real
  paused :: bool
  over :: bool
  holdType :: "tetro option"
  holdUsed :: bool

subsection \<open>Line clearing and scoring\<close>

definition rowFull :: "cell list \<Rightarrow> bool" where
  "rowFull r = list_all (\<lambda>c. c = Hole \<or> truthy c) r"

definition countFull :: "grid \<Rightarrow> nat" where
  "countFull g = length (filter rowFull g)"

definition removeRow :: "grid \<Rightarrow> int \<Rightarrow> grid" where
  "removeRow g gy = emptyRow # (take (nat gy) g @ drop (nat gy + 1) g)"

lemma rowFull_emptyRow: "\<not> rowFull emptyRow"
  by (simp add: rowFull_def emptyRow_def COLS_def truthy_def list_all_iff)

lemma countFull_removeRow:
  assumes "0 \<le> gy" "gy < int (length g)" "rowFull (g ! nat gy)"
  shows "countFull (removeRow g gy) < countFull g"
proof -
  have "g = take (nat gy) g @ (g ! nat gy) # drop (nat gy + 1) g"
    using assms(1,2) by (simp add: id_take_nth_drop)
  then have "countFull g = countFull (take (nat gy) g @ (g ! nat gy) # drop (nat gy + 1) g)"
    by simp
  also have "\<dots> = Suc (countFull (take (nat gy) g @ drop (nat gy + 1) g))"
    using assms(3) by (simp add: countFull_def)
  finally show ?thesis
    by (simp add: removeRow_def countFull_def rowFull_emptyRow)
qed

text \<open>
  The loop \<open>for (let y = ROWS - 1; y >= 0; y--)\<close>: after a removal the body's \<open>y++\<close>
  cancels the \<open>y--\<close>, so the same index is looked at again.
\<close>

function clearLoop :: "int \<Rightarrow> grid \<Rightarrow> nat \<Rightarrow> error + (grid \<times> nat)" where
  "clearLoop gy g cleared =
     (if gy < 0 then Inr (g, cleared)
      else case getRow g gy of
        Inl e \<Rightarrow> Inl e
      | Inr r \<Rightarrow>
          if rowFull r then clearLoop gy (removeRow g gy) (cleared + 1)
          else clearLoop (gy - 1) g cleared)"
  by pat_completeness auto
termination
proof (relation "measures [\<lambda>(gy, g, c). countFull g, \<lambda>(gy, g, c). nat (gy + 1)]")
  show "wf (measures [\<lambda>(gy, g, c). countFull g, \<lambda>(gy, g, c). nat (gy + 1)])"
    by simp
next
  fix gy :: int and g :: grid and cleared :: nat and r :: "cell list"
  assume "\<not> gy < 0" "getRow g gy = Inr r" "rowFull r"
  then have "countFull (removeRow g gy) < countFull g"
    by (intro countFull_removeRow) (auto simp: getRow_def split: if_splits)
  then show "((gy, removeRow g gy, cleared + 1), (gy, g, cleared))
      \<in> measures [\<lambda>(gy, g, c). countFull g, \<lambda>(gy, g, c). nat (gy + 1)]"
    by simp
next
  fix gy :: int and g :: grid and cleared :: nat and r :: "cell list"
  assume "\<not> gy < 0"
  then show "((gy - 1, g, cleared), (gy, g, cleared))
      \<in> measures [\<lambda>(gy, g, c). countFull g, \<lambda>(gy, g, c). nat (gy + 1)]"
    by simp
qed

declare clearLoop.simps [simp del]

definition scoreTable :: "nat \<Rightarrow> jsval" where
  "scoreTable n = (if n < 5 then Number ([0, 40, 100, 300, 1200] ! n) else Undefined)"

text \<open>
  \<open>Math.floor(dropInterval * 0.85)\<close>: the product is taken in the reals. On the values
  that \<open>dropInterval\<close> takes (800, 680, 578, \<dots>, 94, 80) the double product has the
  same floor.
\<close>

definition speedUp :: "int \<Rightarrow> int" where
  "speedUp d = max 80 \<lfloor>real_of_int d * 0.85\<rfloor>"

text \<open>
  \<open>clearLines\<close> has no \<open>return\<close> statement: the value of a call is \<open>undefined\<close>. The
  model returns it beside the new session.
\<close>

definition clearLines :: "state \<Rightarrow> error + (jsval \<times> state)" where
  "clearLines s =
     thenE (clearLoop (ROWS - 1) (grid s) 0) (\<lambda>(g, cleared).
       let s1 = s\<lparr>grid := g\<rparr> in
       if cleared \<noteq> 0 then
         let points = js_times (scoreTable cleared) (level s1);
             s2 = s1\<lparr>score := js_plus (score s1) points\<rparr>;
             s3 = s2\<lparr>lines := lines s2 + int cleared\<rparr>;
             s4 = (if lines s3 \<ge> level s3 * 10
                   then s3\<lparr>level := level s3 + 1, dropInterval := speedUp (dropInterval s3)\<rparr>
                   else s3)
         in Inr (Undefined, s4)
       else Inr (Undefined, s1))"

subsection \<open>Spawning, locking and the player's operations\<close>

definition spawn :: "tetro \<Rightarrow> state \<Rightarrow> error + state" where
  "spawn nx s =
     (let cur = (next_piece s)\<lparr>px := 3, py := - 2, rot := 0\<rparr>;
          s1 = s\<lparr>current := Some cur, next_piece := randomPiece nx, holdUsed := False\<rparr>
      in thenE (collides (grid s1) cur) (\<lambda>hit.
           Inr (if hit then s1\<lparr>over := True\<rparr> else s1)))"

text \<open>\<open>merge(current)\<close> reads \<open>p.shape\<close>, which raises TypeError while \<open>current\<close> is \<open>null\<close>.\<close>

definition tickLock :: "tetro \<Rightarrow> state \<Rightarrow> error + state" where
  "tickLock nx s =
     (case current s of
        None \<Rightarrow> Inl TypeError
      | Some c \<Rightarrow>
          thenE (merge (grid s) c) (\<lambda>g.
          thenE (clearLines (s\<lparr>grid := g\<rparr>)) (\<lambda>(v, s1).
          spawn nx s1)))"

text \<open>
  The \<open>while (true)\<close> loop of \<open>hardDrop\<close> leaves only through \<open>break\<close>; a run that
  never reaches it is the value \<open>None\<close>.
\<close>

partial_function (option) dropLoop :: "grid \<Rightarrow> piece \<Rightarrow> bool \<Rightarrow> (error + piece \<times> bool) option" where
  "dropLoop g cur moved =
     (let p = cur\<lparr>py := py cur + 1\<rparr> in
      case collides g p of
        Inl e \<Rightarrow> Some (Inl e)
      | Inr hit \<Rightarrow> if hit then Some (Inr (cur, moved)) else dropLoop g p True)"

declare dropLoop.simps [code]

definition hardDrop :: "tetro \<Rightarrow> state \<Rightarrow> (error + state) option" where
  "hardDrop nx s =
     (case current s of
        None \<Rightarrow> Some (Inr s)
      | Some c \<Rightarrow>
          (case dropLoop (grid s) c False of
             None \<Rightarrow> None
           | Some (Inl e) \<Rightarrow> Some (Inl e)
           | Some (Inr (c1, moved)) \<Rightarrow>
               let s1 = s\<lparr>current := Some c1\<rparr> in
               if moved then Some (tickLock nx s1) else Some (Inr s1)))"

definition move :: "int \<Rightarrow> int \<Rightarrow> state \<Rightarrow> error + state" where
  "move dx dy s =
     (case current s of
        None \<Rightarrow> Inl TypeError
      | Some c \<Rightarrow>
          let p = c\<lparr>px := px c + dx, py := py c + dy\<rparr> in
          thenE (collides (grid s) p) (\<lambda>hit.
            Inr (if \<not> hit then s\<lparr>current := Some p\<rparr> else s)))"

fun tryKicks :: "grid \<Rightarrow> piece \<Rightarrow> int list \<Rightarrow> error + piece option" where
  "tryKicks g p [] = Inr None"
| "tryKicks g p (k # ks) =
     (let w = p\<lparr>px := px p + k\<rparr> in
      thenE (collides g w) (\<lambda>hit.
        if \<not> hit then Inr (Some w) else tryKicks g p ks))"

definition rotateCurrent :: "state \<Rightarrow> error + state" where
  "rotateCurrent s =
     (case current s of
        None \<Rightarrow> Inl TypeError
      | Some c \<Rightarrow>
          let p = rotate_piece c in
          thenE (collides (grid s) p) (\<lambda>hit.
            if \<not> hit then Inr (s\<lparr>current := Some p\<rparr>)
            else thenE (tryKicks (grid s) p [- 1, 1, - 2, 2]) (\<lambda>found.
              case found of
                Some w \<Rightarrow> Inr (s\<lparr>current := Some w\<rparr>)
              | None \<Rightarrow> Inr s)))"

text \<open>One run of the frame callback \<open>update(time)\<close>; rescheduling itself is not modelled.\<close>

definition update :: "real \<Rightarrow> tetro \<Rightarrow> state \<Rightarrow> error + state" where
  "update time nx s =
     (if paused s \<or> over s then Inr s
      else
        let delta = time - lastTime s;
            s1 = s\<lparr>lastTime := time, dropAccum := dropAccum s + delta\<rparr>
        in if dropAccum s1 > real_of_int (dropInterval s1) then
             let s2 = s1\<lparr>dropAccum := 0\<rparr> in
             (case current s2 of
                None \<Rightarrow> Inl TypeError
              | Some c \<Rightarrow>
                  let p = c\<lparr>py := py c + 1\<rparr> in
                  thenE (collides (grid s2) p) (\<lambda>hit.
                    if hit then tickLock nx s2 else Inr (s2\<lparr>current := Some p\<rparr>)))
           else Inr s1)"

text \<open>\<open>reset\<close> assigns every variable of the session; \<open>r1\<close> and \<open>r2\<close> are its two draws.\<close>

definition reset :: "tetro \<Rightarrow> tetro \<Rightarrow> real \<Rightarrow> state \<Rightarrow> error + state" where
  "reset r1 r2 now s =
     (let s0 = s\<lparr>grid := createGrid COLS ROWS, score := Number 0, lines := 0, level := 1,
                  dropInterval := 800, over := False, paused := False, holdType := None,
                  holdUsed := False, current := None, next_piece := randomPiece r1\<rparr>
      in thenE (spawn r2 s0) (\<lambda>s1. Inr (s1\<lparr>lastTime := now, dropAccum := 0\<rparr>)))"

definition togglePause :: "real \<Rightarrow> state \<Rightarrow> state" where
  "togglePause now s =
     (if over s then s
      else
        let s1 = s\<lparr>paused := \<not> paused s\<rparr> in
        if \<not> paused s1 then s1\<lparr>lastTime := now\<rparr> else s1)"

definition doHold :: "tetro \<Rightarrow> state \<Rightarrow> error + state" where
  "doHold nx s =
     (if paused s \<or> over s \<or> holdUsed s \<or> current s = None then Inr s
      else
        let curType = ptype (the (current s)) in
        thenE
          (if holdType s = None then spawn nx (s\<lparr>holdType := Some curType\<rparr>)
           else
             let swapType = the (holdType s);
                 s1 = s\<lparr>holdType := Some curType, current := Some (pieceFromType swapType)\<rparr>
             in thenE (collides (grid s1) (pieceFromType swapType)) (\<lambda>hit.
                  Inr (if hit then s1\<lparr>over := True\<rparr> else s1)))
          (\<lambda>s2. Inr (s2\<lparr>holdUsed := True\<rparr>)))"

subsection \<open>Input and the reachable sessions\<close>

datatype key = ArrowLeft | ArrowRight | ArrowDown | ArrowUp | Space
  | ShiftLeft | ShiftRight | KeyC | KeyP | OtherKey

definition keydown :: "key \<Rightarrow> tetro \<Rightarrow> real \<Rightarrow> state \<Rightarrow> (error + state) option" where
  "keydown k nx now s =
     (if over s then Some (Inr s)
      else if k = KeyP then Some (Inr (togglePause now s))
      else if paused s then Some (Inr s)
      else case k of
        ArrowLeft \<Rightarrow> Some (move (- 1) 0 s)
      | ArrowRight \<Rightarrow> Some (move 1 0 s)
      | ArrowDown \<Rightarrow> Some (move 0 1 s)
      | ArrowUp \<Rightarrow> Some (rotateCurrent s)
      | Space \<Rightarrow> hardDrop nx s
      | ShiftLeft \<Rightarrow> Some (doHold nx s)
      | ShiftRight \<Rightarrow> Some (doHold nx s)
      | KeyC \<Rightarrow> Some (doHold nx s)
      | _ \<Rightarrow> Some (Inr s))"

datatype button = BtnLeft | BtnRight | BtnDown | BtnRotate | BtnDrop | BtnHold | BtnPause

definition press :: "button \<Rightarrow> tetro \<Rightarrow> real \<Rightarrow> state \<Rightarrow> (error + state) option" where
  "press b nx now s =
     (case b of
        BtnPause \<Rightarrow> Some (Inr (if \<not> over s then togglePause now s else s))
      | _ \<Rightarrow>
          if \<not> paused s \<and> \<not> over s then
            (case b of
               BtnLeft \<Rightarrow> Some (move (- 1) 0 s)
             | BtnRight \<Rightarrow> Some (move 1 0 s)
             | BtnDown \<Rightarrow> Some (move 0 1 s)
             | BtnRotate \<Rightarrow> Some (rotateCurrent s)
             | BtnDrop \<Rightarrow> hardDrop nx s
             | _ \<Rightarrow> Some (doHold nx s))
          else Some (Inr s))"

text \<open>
  An event carries what the handler draws or reads: the kind chosen by \<open>Math.random\<close>
  should a piece be spawned, and the clock. The restart button calls \<open>reset\<close>.
\<close>

datatype event = KeyDown key tetro real | Press button tetro real
  | Frame real tetro | Restart tetro tetro real

fun handle :: "event \<Rightarrow> state \<Rightarrow> (error + state) option" where
  "handle (KeyDown k nx now) s = keydown k nx now s"
| "handle (Press b nx now) s = press b nx now s"
| "handle (Frame time nx) s = Some (update time nx s)"
| "handle (Restart r1 r2 now) s = Some (reset r1 r2 now s)"

fun run :: "event list \<Rightarrow> state \<Rightarrow> (error + state) option" where
  "run [] s = Some (Inr s)"
| "run (e # es) s =
     (case handle e s of
        Some (Inr s1) \<Rightarrow> run es s1
      | r \<Rightarrow> r)"

text \<open>
  The declarations under \<open>// State\<close> give the variables their first values
  (\<open>initState\<close>) and the script ends with \<open>reset()\<close>; afterwards the session changes
  only in the handlers.
\<close>

definition initState :: "tetro \<Rightarrow> state" where
  "initState r0 =
     \<lparr>grid = createGrid COLS ROWS, score = Number 0, lines = 0, level = 1, current = None,
      next_piece = randomPiece r0, dropInterval = 800, lastTime = 0, dropAccum = 0,
      paused = False, over = False, holdType = None, holdUsed = False\<rparr>"

inductive reachable :: "state \<Rightarrow> bool" where
  boot: "reset r1 r2 now (initState r0) = Inr s \<Longrightarrow> reachable s"
| step: "reachable s \<Longrightarrow> handle e s = Some (Inr s1) \<Longrightarrow> reachable s1"

text \<open>A session from the start of the script through a list of events.\<close>

definition play :: "tetro \<Rightarrow> tetro \<Rightarrow> tetro \<Rightarrow> real \<Rightarrow> event list \<Rightarrow> (error + state) option" where
  "play r0 r1 r2 now es =
     (case reset r1 r2 now (initState r0) of
        Inl e \<Rightarrow> Some (Inl e)
      | Inr s \<Rightarrow> run es s)"

subsection \<open>Predicates for the properties\<close>

text \<open>
  Two bounds on a piece's cells. \<open>inBounds\<close>: no cell has absolute \<open>x < 0\<close>, \<open>x \<ge> COLS\<close>
  or \<open>y \<ge> ROWS\<close>. \<open>visibleInBounds\<close>: the same for the cells at rows \<open>y \<ge> 0\<close>, which
  are the cells that \<open>collides\<close> looks at.
\<close>

definition inBounds :: "piece \<Rightarrow> bool" where
  "inBounds p =
     list_all (\<lambda>(cx, cy). 0 \<le> px p + cx \<and> px p + cx < COLS \<and> py p + cy < ROWS) (shape p)"

definition visibleInBounds :: "piece \<Rightarrow> bool" where
  "visibleInBounds p =
     list_all (\<lambda>(cx, cy). py p + cy < 0
        \<or> (0 \<le> px p + cx \<and> px p + cx < COLS \<and> py p + cy < ROWS)) (shape p)"

text \<open>
  \<open>cellAt\<close> reads the grid as \<open>collides\<close> and \<open>every\<close> see it: outside the rows and beyond
  the end of a row there is nothing, like a hole. \<open>isMerged g0 p g\<close>: the grid \<open>g\<close> is
  \<open>g0\<close> with the colour of \<open>p\<close> written into the cells of \<open>p\<close> at rows \<open>y \<ge> 0\<close>, and
  nothing else changed.
\<close>

definition cellAt :: "grid \<Rightarrow> int \<Rightarrow> int \<Rightarrow> cell" where
  "cellAt g gy gx = (if 0 \<le> gy \<and> gy < int (length g) then getCell (g ! nat gy) gx else Hole)"

definition isMerged :: "grid \<Rightarrow> piece \<Rightarrow> grid \<Rightarrow> bool" where
  "isMerged g0 p g =
     (length g = length g0
      \<and> (\<forall>gy gx. cellAt g gy gx =
            (if 0 \<le> gy \<and> (gx - px p, gy - py p) \<in> set (shape p) then Colour (color p)
             else cellAt g0 gy gx)))"

text \<open>
  What every reachable session satisfies: the grid has \<open>ROWS\<close> rows, none of them full;
  there is an active piece, it has four cells and, unless the game is over, it does not
  collide; the next piece is fresh from \<open>pieceFromType\<close>.
\<close>

definition sessionInv :: "state \<Rightarrow> bool" where
  "sessionInv s =
     (int (length (grid s)) = ROWS \<and> countFull (grid s) = 0
      \<and> (case current s of
            None \<Rightarrow> False
          | Some c \<Rightarrow> length (shape c) = 4 \<and> (over s \<or> collides (grid s) c = Inr False))
      \<and> next_piece s = pieceFromType (ptype (next_piece s)))"

text \<open>
  The drop interval follows the level: \<open>level - 1\<close> level-ups have happened since
  \<open>reset\<close>, each of them one \<open>speedUp\<close>.
\<close>

definition speedInv :: "state \<Rightarrow> bool" where
  "speedInv s =
     (1 \<le> level s \<and> dropInterval s = (speedUp ^^ nat (level s - 1)) 800)"

subsection \<open>Sample sessions\<close>

text \<open>
  The session after the script has started with a T piece and an I piece behind it, and
  the player has pressed hold once: the T is held, the I is active and an O is next.
\<close>

definition heldOnce :: state where
  "heldOnce =
     \<lparr>grid = createGrid COLS ROWS, score = Number 0, lines = 0, level = 1,
      current = Some (pieceFromType TetI), next_piece = pieceFromType TetO,
      dropInterval = 800, lastTime = 0, dropAccum = 0, paused = False, over = False,
      holdType = Some TetT, holdUsed = True\<rparr>"

text \<open>
  The session in the middle of a lock, between \<open>merge\<close> and \<open>clearLines\<close>: an I piece
  has just completed the bottom row, nine lines were cleared before at level 1.
  \<open>afterLevelUp\<close> is the same session once \<open>clearLines\<close> has run.
\<close>

definition nearLevelUp :: state where
  "nearLevelUp =
     \<lparr>grid = replicate 19 emptyRow @ [replicate 10 (Colour ''#00ffff'')], score = Number 360,
      lines = 9, level = 1, current = Some ((pieceFromType TetI)\<lparr>py := 18\<rparr>),
      next_piece = pieceFromType TetO, dropInterval = 800, lastTime = 0, dropAccum = 0,
      paused = False, over = False, holdType = None, holdUsed = False\<rparr>"

definition afterLevelUp :: state where
  "afterLevelUp =
     nearLevelUp\<lparr>grid := createGrid COLS ROWS, score := Number 400, lines := 10, level := 2,
                 dropInterval := 680\<rparr>"

text \<open>
  Two I pieces lie on the bottom row in columns 0 to 7 and an O piece has been moved
  above columns 8 and 9 (\<open>beforeLock\<close>, reached by \<open>fillBottom\<close>). A hard drop takes the
  O down to rows 18 and 19; \<open>midLock\<close> is the session inside that lock, after \<open>merge\<close>
  and before \<open>clearLines\<close>, and \<open>afterClear\<close> the session when \<open>clearLines\<close> is done.
\<close>

definition fillBottom :: "event list" where
  "fillBottom =
     [KeyDown ArrowLeft TetO 0, KeyDown ArrowLeft TetO 0, KeyDown ArrowLeft TetO 0,
      KeyDown Space TetO 0,
      KeyDown ArrowRight TetT 0, KeyDown Space TetT 0,
      KeyDown ArrowRight TetJ 0, KeyDown ArrowRight TetJ 0, KeyDown ArrowRight TetJ 0,
      KeyDown ArrowRight TetJ 0]"

definition beforeLock :: state where
  "beforeLock =
     \<lparr>grid = replicate 19 emptyRow @ [replicate 8 (Colour ''#00ffff'') @ [Null, Null]],
      score = Number 0, lines = 0, level = 1,
      current = Some ((pieceFromType TetO)\<lparr>px := 7\<rparr>), next_piece = pieceFromType TetT,
      dropInterval = 800, lastTime = 0, dropAccum = 0, paused = False, over = False,
      holdType = None, holdUsed = False\<rparr>"

definition midLock :: state where
  "midLock =
     beforeLock\<lparr>current := Some ((pieceFromType TetO)\<lparr>px := 7, py := 18\<rparr>),
       grid := replicate 18 emptyRow
         @ [replicate 8 Null @ [Colour ''#f1e05a'', Colour ''#f1e05a''],
            replicate 8 (Colour ''#00ffff'') @ [Colour ''#f1e05a'', Colour ''#f1e05a'']]\<rparr>"

definition afterClear :: state where
  "afterClear =
     midLock\<lparr>grid := replicate 19 emptyRow
         @ [replicate 8 Null @ [Colour ''#f1e05a'', Colour ''#f1e05a'']],
       score := Number 40, lines := 1\<rparr>"

text \<open>
  A session at level 3 with 28 lines: rows 18 and 19 are full except for columns 4 and
  5, and the O piece rests in that gap.
\<close>

definition twoRows :: state where
  "twoRows =
     \<lparr>grid = replicate 18 emptyRow
         @ replicate 2 (replicate 4 (Colour ''#4dabf7'') @ [Null, Null]
                          @ replicate 4 (Colour ''#ffb74d'')),
      score = Number 500, lines = 28, level = 3,
      current = Some ((pieceFromType TetO)\<lparr>py := 18\<rparr>), next_piece = pieceFromType TetS,
      dropInterval = 578, lastTime = 0, dropAccum = 0, paused = False, over = False,
      holdType = None, holdUsed = False\<rparr>"

text \<open>
  An O piece taken down to the floor of the empty grid with twenty presses of the down
  key (\<open>onFloor\<close>, reached by \<open>softDrop\<close>); \<open>onFloorLocked\<close> is what a lock of that
  piece gives, with an L piece drawn as the next one.
\<close>

definition softDrop :: "event list" where
  "softDrop = replicate 20 (KeyDown ArrowDown TetT 0)"

definition onFloor :: state where
  "onFloor =
     \<lparr>grid = createGrid COLS ROWS, score = Number 0, lines = 0, level = 1,
      current = Some ((pieceFromType TetO)\<lparr>py := 18\<rparr>), next_piece = pieceFromType TetI,
      dropInterval = 800, lastTime = 0, dropAccum = 0, paused = False, over = False,
      holdType = None, holdUsed = False\<rparr>"

definition onFloorLocked :: state where
  "onFloorLocked =
     onFloor\<lparr>grid := replicate 18 emptyRow
         @ replicate 2 (replicate 4 Null @ [Colour ''#f1e05a'', Colour ''#f1e05a'']
                          @ replicate 4 Null),
       current := Some (pieceFromType TetI), next_piece := pieceFromType TetL\<rparr>"

text \<open>
  \<open>afterDrop\<close>: the session after the hard drop from \<open>beforeLock\<close>, with an L piece drawn.
\<close>

definition afterDrop :: state where
  "afterDrop =
     afterClear\<lparr>current := Some (pieceFromType TetT), next_piece := pieceFromType TetL\<rparr>"

text \<open>
  Five O pieces side by side fill two rows (\<open>fiveAcross\<close>). Doing so five times clears
  ten lines, and the session is at level 2: \<open>levelTwo\<close>, reached by \<open>tenLines\<close>.
\<close>

definition fiveAcross :: "event list" where
  "fiveAcross =
     replicate 4 (KeyDown ArrowLeft TetO 0) @ [KeyDown Space TetO 0]
     @ replicate 2 (KeyDown ArrowLeft TetO 0) @ [KeyDown Space TetO 0]
     @ [KeyDown Space TetO 0]
     @ replicate 2 (KeyDown ArrowRight TetO 0) @ [KeyDown Space TetO 0]
     @ replicate 4 (KeyDown ArrowRight TetO 0) @ [KeyDown Space TetO 0]"

definition tenLines :: "event list" where
  "tenLines = concat (replicate 5 fiveAcross)"

definition levelTwo :: state where
  "levelTwo =
     \<lparr>grid = createGrid COLS ROWS, score = Number 500, lines = 10, level = 2,
      current = Some (pieceFromType TetO), next_piece = pieceFromType TetO,
      dropInterval = 680, lastTime = 0, dropAccum = 0, paused = False, over = False,
      holdType = None, holdUsed = False\<rparr>"

text \<open>
  An upright I piece in column 1 of the empty grid, five rows down (\<open>atLeftWall\<close>), and
  the same piece still at its spawn height (\<open>aboveBoard\<close>, reached by \<open>toLeftWall\<close>).
\<close>

definition uprightI :: piece where
  "uprightI = (rotate_piece (pieceFromType TetI))\<lparr>px := 0\<rparr>"

definition atLeftWall :: state where
  "atLeftWall =
     \<lparr>grid = createGrid COLS ROWS, score = Number 0, lines = 0, level = 1,
      current = Some (uprightI\<lparr>py := 5\<rparr>), next_piece = pieceFromType TetO,
      dropInterval = 800, lastTime = 0, dropAccum = 0, paused = False, over = False,
      holdType = None, holdUsed = False\<rparr>"

definition toLeftWall :: "event list" where
  "toLeftWall =
     [KeyDown ArrowUp TetO 0, KeyDown ArrowLeft TetO 0, KeyDown ArrowLeft TetO 0,
      KeyDown ArrowLeft TetO 0]"

definition aboveBoard :: state where
  "aboveBoard = atLeftWall\<lparr>current := Some uprightI\<rparr>"

text \<open>
  Upright I pieces dropped on top of each other in column 4. After four of them
  (\<open>buildColumn\<close>, with an S piece drawn last) the fifth stands rotated at the spawn
  anchor: \<open>columnBuilt\<close>. Its hard drop fills the column up to row 0 and spawns the S
  piece onto it: \<open>gameOverS\<close>. With I and O pieces drawn instead (\<open>fillColumn\<close>) the
  session after the fifth drop is \<open>toppedOut\<close>, and \<open>toppedOutNext\<close> one gravity tick
  later.
\<close>

definition stackRow :: "cell list" where
  "stackRow = replicate 4 Null @ [Colour ''#00ffff''] @ replicate 5 Null"

definition buildColumn :: "event list" where
  "buildColumn =
     [KeyDown ArrowUp TetI 0, KeyDown Space TetI 0, KeyDown ArrowUp TetI 0, KeyDown Space TetI 0,
      KeyDown ArrowUp TetI 0, KeyDown Space TetI 0, KeyDown ArrowUp TetI 0, KeyDown Space TetS 0,
      KeyDown ArrowUp TetI 0]"

definition columnBuilt :: state where
  "columnBuilt =
     \<lparr>grid = replicate 4 emptyRow @ replicate 16 stackRow, score = Number 0, lines = 0,
      level = 1, current = Some (rotate_piece (pieceFromType TetI)),
      next_piece = pieceFromType TetS, dropInterval = 800, lastTime = 0, dropAccum = 0,
      paused = False, over = False, holdType = None, holdUsed = False\<rparr>"

definition gameOverS :: state where
  "gameOverS =
     columnBuilt\<lparr>grid := replicate 20 stackRow, current := Some (pieceFromType TetS),
       next_piece := pieceFromType TetO, over := True\<rparr>"

definition fillColumn :: "event list" where
  "fillColumn =
     [KeyDown ArrowUp TetI 0, KeyDown Space TetI 0, KeyDown ArrowUp TetI 0, KeyDown Space TetI 0,
      KeyDown ArrowUp TetI 0, KeyDown Space TetI 0, KeyDown ArrowUp TetI 0, KeyDown Space TetI 0,
      KeyDown ArrowUp TetI 0, KeyDown Space TetO 0]"

definition toppedOut :: state where
  "toppedOut =
     \<lparr>grid = replicate 20 stackRow, score = Number 0, lines = 0, level = 1,
      current = Some (pieceFromType TetI), next_piece = pieceFromType TetO,
      dropInterval = 800, lastTime = 0, dropAccum = 0, paused = False, over = False,
      holdType = None, holdUsed = False\<rparr>"

definition toppedOutNext :: state where
  "toppedOutNext =
     toppedOut\<lparr>current := Some (pieceFromType TetO), next_piece := pieceFromType TetT,
       lastTime := 1000\<rparr>"

section \<open>Facts about the model\<close>

lemmas run_defs = reset_def spawn_def collides_def initState_def randomPiece_def
  pieceFromType_def thenE_def createGrid_def COLS_def ROWS_def getRow_def getCell_def
  truthy_def Let_def

subsection \<open>What the clearing loop computes\<close>

lemma getRow_in: "0 \<le> gy \<Longrightarrow> gy < int (length g) \<Longrightarrow> getRow g gy = Inr (g ! nat gy)"
  by (simp add: getRow_def)

lemma take_Suc_nat:
  "0 \<le> gy \<Longrightarrow> gy < int (length g) \<Longrightarrow> take (nat (gy + 1)) g = take (nat gy) g @ [g ! nat gy]"
  by (simp add: nat_add_distrib take_Suc_conv_app_nth)

text \<open>
  With the rows above index \<open>gy\<close> still to be looked at, the loop removes the full ones
  among them, puts as many empty rows on top and counts them.
\<close>

lemma clearLoop_eq:
  "- 1 \<le> gy \<Longrightarrow> gy < int (length g) \<Longrightarrow>
   clearLoop gy g c =
     Inr (replicate (countFull (take (nat (gy + 1)) g)) emptyRow
            @ filter (\<lambda>r. \<not> rowFull r) (take (nat (gy + 1)) g) @ drop (nat (gy + 1)) g,
          c + countFull (take (nat (gy + 1)) g))"
proof (induction gy g c rule: clearLoop.induct)
  case (1 gy g cleared)
  show ?case
  proof (cases "gy < 0")
    case True
    with "1.prems" have "gy = - 1" by simp
    then show ?thesis
      by (subst clearLoop.simps) (simp add: countFull_def)
  next
    case nonneg: False
    then have row: "getRow g gy = Inr (g ! nat gy)"
      using "1.prems" by (simp add: getRow_in)
    have tk: "take (nat (gy + 1)) g = take (nat gy) g @ [g ! nat gy]"
      using nonneg "1.prems" by (simp add: take_Suc_nat)
    show ?thesis
    proof (cases "rowFull (g ! nat gy)")
      case full: True
      let ?g' = "removeRow g gy"
      have len: "length ?g' = length g"
        using nonneg "1.prems" by (simp add: removeRow_def)
      have tk': "take (nat (gy + 1)) ?g' = emptyRow # take (nat gy) g"
        using nonneg "1.prems" by (simp add: removeRow_def nat_add_distrib)
      have dr': "drop (nat (gy + 1)) ?g' = drop (nat (gy + 1)) g"
        using nonneg "1.prems" by (simp add: removeRow_def nat_add_distrib)
      have IH: "clearLoop gy ?g' (cleared + 1) =
         Inr (replicate (countFull (take (nat (gy + 1)) ?g')) emptyRow
            @ filter (\<lambda>r. \<not> rowFull r) (take (nat (gy + 1)) ?g') @ drop (nat (gy + 1)) ?g',
          cleared + 1 + countFull (take (nat (gy + 1)) ?g'))"
        using "1.IH"(1)[OF nonneg row full] "1.prems" len by simp
      have "clearLoop gy g cleared = clearLoop gy ?g' (cleared + 1)"
        using nonneg row full by (subst clearLoop.simps) simp
      also note IH
      finally show ?thesis
        using full by (simp add: tk tk' dr' countFull_def rowFull_emptyRow replicate_app_Cons_same)
    next
      case notfull: False
      have IH: "clearLoop (gy - 1) g cleared =
         Inr (replicate (countFull (take (nat gy) g)) emptyRow
            @ filter (\<lambda>r. \<not> rowFull r) (take (nat gy) g) @ drop (nat gy) g,
          cleared + countFull (take (nat gy) g))"
        using "1.IH"(2)[OF nonneg row notfull] "1.prems" nonneg by simp
      have dr: "drop (nat gy) g = g ! nat gy # drop (nat (gy + 1)) g"
        using nonneg "1.prems" by (simp add: nat_add_distrib Cons_nth_drop_Suc)
      have "clearLoop gy g cleared = clearLoop (gy - 1) g cleared"
        using nonneg row notfull by (subst clearLoop.simps) simp
      also note IH
      finally show ?thesis
        using notfull by (simp add: tk dr countFull_def)
    qed
  qed
qed

lemma clearLoop_all:
  assumes "int (length g) = ROWS"
  shows "clearLoop (ROWS - 1) g 0 =
     Inr (replicate (countFull g) emptyRow @ filter (\<lambda>r. \<not> rowFull r) g, countFull g)"
  using clearLoop_eq[of "ROWS - 1" g 0] assms by (simp add: ROWS_def)

lemma speedUp_code: "speedUp d = max 80 (d * 17 div 20)"
proof -
  have "real_of_int d * 0.85 = real_of_int (d * 17) / real_of_int 20"
    by simp
  then have "\<lfloor>real_of_int d * 0.85\<rfloor> = d * 17 div 20"
    by (simp only: floor_divide_of_int_eq)
  then show ?thesis
    by (simp add: speedUp_def)
qed

lemma clearLines_eq:
  assumes "int (length (grid s)) = ROWS"
  shows "clearLines s = Inr (Undefined,
    (let n = countFull (grid s);
         s1 = s\<lparr>grid := replicate n emptyRow @ filter (\<lambda>r. \<not> rowFull r) (grid s)\<rparr>
     in if n = 0 then s1
        else
          let s3 = s1\<lparr>score := js_plus (score s) (js_times (scoreTable n) (level s)),
                      lines := lines s + int n\<rparr>
          in if level s * 10 \<le> lines s + int n
             then s3\<lparr>level := level s + 1, dropInterval := speedUp (dropInterval s)\<rparr>
             else s3))"
  by (simp add: clearLines_def clearLoop_all[OF assms] thenE_def Let_def)

lemma filter_notFull_id: "countFull g = 0 \<Longrightarrow> filter (\<lambda>r. \<not> rowFull r) g = g"
  by (simp add: countFull_def filter_empty_conv)

subsection \<open>Collision and merging\<close>

lemma collidesCells_total:
  "int (length g) = ROWS \<Longrightarrow> \<exists>b. collidesCells g x0 y0 cs = Inr b"
  by (induction cs) (auto simp: Let_def thenE_def getRow_def)

lemma collides_total: "int (length g) = ROWS \<Longrightarrow> \<exists>b. collides g p = Inr b"
  by (simp add: collides_def collidesCells_total)

lemma collidesCells_FalseD:
  "collidesCells g x0 y0 cs = Inr False \<Longrightarrow> (cx, cy) \<in> set cs \<Longrightarrow> 0 \<le> y0 + cy \<Longrightarrow>
   0 \<le> x0 + cx \<and> x0 + cx < COLS \<and> y0 + cy < ROWS \<and> y0 + cy < int (length g)
   \<and> \<not> truthy (getCell (g ! nat (y0 + cy)) (x0 + cx))"
  by (induction cs) (auto simp: Let_def thenE_def getRow_def split: if_splits sum.splits)

lemma filter_update_le: "length (filter P (xs[i := v])) \<le> Suc (length (filter P xs))"
proof (induction xs arbitrary: i)
  case Nil
  then show ?case by simp
next
  case (Cons a xs)
  then show ?case
    by (cases i) (auto simp: le_SucI)
qed

lemma countFull_update: "countFull (g[i := r]) \<le> Suc (countFull g)"
  by (simp add: countFull_def filter_update_le)

lemma mergeCells_props:
  "mergeCells g x0 y0 c cs = Inr g1 \<Longrightarrow>
   length g1 = length g \<and> countFull g1 \<le> countFull g + length cs"
proof (induction cs arbitrary: g)
  case Nil
  then show ?case by simp
next
  case (Cons a cs)
  obtain cx cy where a: "a = (cx, cy)" by (cases a)
  show ?case
  proof (cases "0 \<le> y0 + cy")
    case True
    with Cons.prems a obtain r where r: "getRow g (y0 + cy) = Inr r"
      and m: "mergeCells (g[nat (y0 + cy) := setCell r (x0 + cx) (Colour c)]) x0 y0 c cs = Inr g1"
      by (auto simp: thenE_def Let_def split: sum.splits)
    from Cons.IH[OF m] countFull_update[of g "nat (y0 + cy)" "setCell r (x0 + cx) (Colour c)"]
    show ?thesis by simp
  next
    case False
    with Cons.prems a have "mergeCells g x0 y0 c cs = Inr g1"
      by (simp add: Let_def)
    from Cons.IH[OF this] show ?thesis by simp
  qed
qed

lemma mergeCells_total:
  "\<forall>(cx, cy) \<in> set cs. 0 \<le> y0 + cy \<longrightarrow> y0 + cy < int (length g) \<Longrightarrow>
   \<exists>g1. mergeCells g x0 y0 c cs = Inr g1"
  by (induction cs arbitrary: g) (auto simp: Let_def thenE_def getRow_def)

lemma merge_total:
  assumes "collides g p = Inr False"
  shows "\<exists>g1. merge g p = Inr g1"
  unfolding merge_def
proof (rule mergeCells_total, clarify)
  fix cx cy assume "(cx, cy) \<in> set (shape p)" "0 \<le> py p + cy"
  with collidesCells_FalseD[OF assms[unfolded collides_def]]
  show "py p + cy < int (length g)" by blast
qed


text \<open>What \<open>merge\<close> writes, cell by cell.\<close>

lemma getCell_setCell:
  "0 \<le> gx0 \<Longrightarrow> getCell (setCell r gx0 v) gx = (if gx = gx0 then v else getCell r gx)"
proof (cases "gx0 < int (length r)")
  case True
  assume "0 \<le> gx0"
  with True show ?thesis
    by (auto simp: getCell_def setCell_def nat_eq_iff)
next
  case False
  assume nn: "0 \<le> gx0"
  from False nn have len: "int (length (setCell r gx0 v)) = gx0 + 1"
    by (simp add: setCell_def)
  show ?thesis
  proof (cases "0 \<le> gx \<and> gx \<le> gx0")
    case out: False
    with False nn len show ?thesis
      by (auto simp: getCell_def)
  next
    case inr: True
    with False nn have "setCell r gx0 v ! nat gx =
        (if gx = gx0 then v else if gx < int (length r) then r ! nat gx else Hole)"
      by (auto simp: setCell_def nth_append nat_less_iff nat_eq_iff)
    with inr False nn len show ?thesis
      by (auto simp: getCell_def)
  qed
qed

lemma cellAt_update:
  assumes "0 \<le> gy0" "gy0 < int (length g)" "0 \<le> gx0"
  shows "cellAt (g[nat gy0 := setCell (g ! nat gy0) gx0 v]) gy gx =
     (if gy = gy0 \<and> gx = gx0 then v else cellAt g gy gx)"
proof (cases "0 \<le> gy \<and> gy < int (length g)")
  case False
  with assms show ?thesis by (auto simp: cellAt_def)
next
  case True
  show ?thesis
  proof (cases "gy = gy0")
    case True
    with assms show ?thesis
      by (simp add: cellAt_def getCell_setCell)
  next
    case False
    with True assms have "nat gy \<noteq> nat gy0" by (simp add: nat_eq_iff)
    with True show ?thesis
      using False by (simp add: cellAt_def)
  qed
qed

lemma mergeCells_cells:
  "\<forall>(cx, cy) \<in> set cs. 0 \<le> y0 + cy \<longrightarrow> y0 + cy < int (length g) \<and> 0 \<le> x0 + cx \<Longrightarrow>
   \<exists>g1. mergeCells g x0 y0 c cs = Inr g1 \<and> length g1 = length g
     \<and> (\<forall>gy gx. cellAt g1 gy gx =
           (if 0 \<le> gy \<and> (gx - x0, gy - y0) \<in> set cs then Colour c else cellAt g gy gx))"
proof (induction cs arbitrary: g)
  case Nil
  then show ?case by simp
next
  case (Cons a cs)
  obtain cx cy where a: "a = (cx, cy)" by (cases a)
  show ?case
  proof (cases "0 \<le> y0 + cy")
    case vis: True
    with Cons.prems a have rng: "y0 + cy < int (length g)" "0 \<le> x0 + cx"
      by auto
    let ?g = "g[nat (y0 + cy) := setCell (g ! nat (y0 + cy)) (x0 + cx) (Colour c)]"
    from Cons.prems have "\<forall>(cx, cy) \<in> set cs. 0 \<le> y0 + cy \<longrightarrow> y0 + cy < int (length ?g) \<and> 0 \<le> x0 + cx"
      by auto
    from Cons.IH[OF this] obtain g1 where g1: "mergeCells ?g x0 y0 c cs = Inr g1" "length g1 = length g"
      and cells: "\<forall>gy gx. cellAt g1 gy gx =
           (if 0 \<le> gy \<and> (gx - x0, gy - y0) \<in> set cs then Colour c else cellAt ?g gy gx)"
      by auto
    from vis rng g1(1) a have run: "mergeCells g x0 y0 c (a # cs) = Inr g1"
      by (simp add: Let_def thenE_def getRow_def)
    have "cellAt g1 gy gx =
           (if 0 \<le> gy \<and> (gx - x0, gy - y0) \<in> set (a # cs) then Colour c else cellAt g gy gx)" for gy gx
      using cells vis a by (auto simp: cellAt_update[OF vis rng])
    with run g1(2) show ?thesis by blast
  next
    case hid: False
    from Cons.prems have "\<forall>(cx, cy) \<in> set cs. 0 \<le> y0 + cy \<longrightarrow> y0 + cy < int (length g) \<and> 0 \<le> x0 + cx"
      by auto
    from Cons.IH[OF this] obtain g1 where g1: "mergeCells g x0 y0 c cs = Inr g1" "length g1 = length g"
      and cells: "\<forall>gy gx. cellAt g1 gy gx =
           (if 0 \<le> gy \<and> (gx - x0, gy - y0) \<in> set cs then Colour c else cellAt g gy gx)"
      by auto
    from hid g1(1) a have run: "mergeCells g x0 y0 c (a # cs) = Inr g1"
      by (simp add: Let_def)
    have "cellAt g1 gy gx =
           (if 0 \<le> gy \<and> (gx - x0, gy - y0) \<in> set (a # cs) then Colour c else cellAt g gy gx)" for gy gx
      using cells hid a by auto
    with run g1(2) show ?thesis by blast
  qed
qed

lemma merge_isMerged:
  assumes "collides g p = Inr False"
  shows "\<exists>g1. merge g p = Inr g1 \<and> isMerged g p g1"
proof -
  have "\<forall>(cx, cy) \<in> set (shape p). 0 \<le> py p + cy \<longrightarrow> py p + cy < int (length g) \<and> 0 \<le> px p + cx"
    using collidesCells_FalseD[OF assms[unfolded collides_def]] by blast
  from mergeCells_cells[OF this, of "color p"] show ?thesis
    by (auto simp: merge_def isMerged_def)
qed

lemma collides_fresh:
  assumes "int (length g) = ROWS"
  shows "collides g (pieceFromType t) =
     Inr (\<exists>(cx, cy) \<in> set (SHAPES t). cy = 2 \<and> truthy (cellAt g 0 (3 + cx)))"
  using assms
  by (cases t)
    (auto simp: collides_def pieceFromType_def getRow_def ROWS_def COLS_def thenE_def cellAt_def)

subsection \<open>The drop loop returns\<close>

text \<open>
  A piece with at least one cell reaches the floor after finitely many shifts, so on a
  grid of \<open>ROWS\<close> rows the loop of \<open>hardDrop\<close> ends: after \<open>k\<close> free shifts the next
  one collides.
\<close>

lemma collides_floor:
  assumes "(cx, cy) \<in> set (shape p)" "ROWS \<le> py p + cy"
  shows "collides g p \<noteq> Inr False"
proof
  assume "collides g p = Inr False"
  from collidesCells_FalseD[OF this[unfolded collides_def] assms(1)] assms(2)
  show False by (simp add: ROWS_def)
qed

lemma dropLoop_result:
  assumes len: "int (length g) = ROWS" and cell: "(cx, cy) \<in> set (shape c)"
  shows "ROWS - (py c + cy) \<le> int n \<Longrightarrow>
     \<exists>k. dropLoop g c m = Some (Inr (c\<lparr>py := py c + int k\<rparr>, m \<or> 0 < k))
       \<and> (\<forall>j. 1 \<le> j \<and> j \<le> k \<longrightarrow> collides g (c\<lparr>py := py c + int j\<rparr>) = Inr False)
       \<and> collides g (c\<lparr>py := py c + int k + 1\<rparr>) = Inr True"
  using cell
proof (induction n arbitrary: c m)
  case 0
  let ?p = "c\<lparr>py := py c + 1\<rparr>"
  from 0 have "collides g ?p \<noteq> Inr False"
    by (intro collides_floor[of cx cy]) auto
  with collides_total[OF len, of ?p] have hit: "collides g ?p = Inr True"
    by auto
  then have "dropLoop g c m = Some (Inr (c, m))"
    by (subst dropLoop.simps) (simp add: Let_def)
  with hit show ?case
    by (intro exI[of _ 0]) simp
next
  case (Suc n)
  let ?p = "c\<lparr>py := py c + 1\<rparr>"
  from collides_total[OF len, of ?p] obtain b where b: "collides g ?p = Inr b"
    by auto
  show ?case
  proof (cases b)
    case True
    with b have "dropLoop g c m = Some (Inr (c, m))"
      by (subst dropLoop.simps) (simp add: Let_def)
    with b True show ?thesis
      by (intro exI[of _ 0]) simp
  next
    case False
    with b have unf: "dropLoop g c m = dropLoop g ?p True"
      by (subst dropLoop.simps) (simp add: Let_def)
    from Suc.prems have "ROWS - (py ?p + cy) \<le> int n" "(cx, cy) \<in> set (shape ?p)"
      by auto
    from Suc.IH[OF this, of True] obtain k where
      k: "dropLoop g ?p True = Some (Inr (?p\<lparr>py := py ?p + int k\<rparr>, True))"
        "\<forall>j. 1 \<le> j \<and> j \<le> k \<longrightarrow> collides g (?p\<lparr>py := py ?p + int j\<rparr>) = Inr False"
        "collides g (?p\<lparr>py := py ?p + int k + 1\<rparr>) = Inr True"
      by auto
    have free: "collides g (c\<lparr>py := py c + int j\<rparr>) = Inr False" if "1 \<le> j" "j \<le> Suc k" for j
    proof (cases "j = 1")
      case True
      with b False show ?thesis by simp
    next
      case False
      with that obtain i where "j = Suc i" "1 \<le> i" "i \<le> k"
        by (cases j) auto
      with k(2) show ?thesis by (auto simp: add.assoc)
    qed
    from unf k(1,3) free show ?thesis
      by (intro exI[of _ "Suc k"]) (auto simp: add.assoc add.commute)
  qed
qed

lemma dropLoop_total:
  assumes "int (length g) = ROWS" "shape c \<noteq> []"
  shows "\<exists>k. dropLoop g c m = Some (Inr (c\<lparr>py := py c + int k\<rparr>, m \<or> 0 < k))
       \<and> (\<forall>j. 1 \<le> j \<and> j \<le> k \<longrightarrow> collides g (c\<lparr>py := py c + int j\<rparr>) = Inr False)
       \<and> collides g (c\<lparr>py := py c + int k + 1\<rparr>) = Inr True"
proof -
  from assms(2) obtain cx cy where "(cx, cy) \<in> set (shape c)"
    by (cases "shape c") auto
  from dropLoop_result[OF assms(1) this, of "nat (ROWS - (py c + cy))" m] show ?thesis
    by simp
qed


subsection \<open>The invariant holds in every reachable session\<close>

lemma length_SHAPES: "length (SHAPES t) = 4"
  by (cases t) simp_all

lemma spawn_inv:
  assumes "spawn nx s = Inr s1" "int (length (grid s)) = ROWS" "countFull (grid s) = 0"
    "next_piece s = pieceFromType t"
  shows "sessionInv s1"
  using assms
  by (auto simp: spawn_def sessionInv_def Let_def thenE_def randomPiece_def pieceFromType_def
      length_SHAPES split: sum.splits if_splits)

lemma countFull_cleared: "countFull (replicate n emptyRow @ filter (\<lambda>r. \<not> rowFull r) g) = 0"
  by (simp add: countFull_def rowFull_emptyRow)

lemma length_cleared:
  "length (replicate (countFull g) emptyRow @ filter (\<lambda>r. \<not> rowFull r) g) = length g"
  using sum_length_filter_compl[of rowFull g] by (simp add: countFull_def)

lemma clearLines_inv:
  assumes "clearLines s = Inr (v, s1)" "int (length (grid s)) = ROWS"
  shows "int (length (grid s1)) = ROWS \<and> countFull (grid s1) = 0
     \<and> next_piece s1 = next_piece s \<and> current s1 = current s"
  using assms(1) assms(2) length_cleared[of "grid s"]
  by (auto simp: clearLines_eq[OF assms(2)] Let_def countFull_cleared filter_notFull_id
      split: if_splits)

lemma tickLock_inv:
  assumes "tickLock nx s = Inr s1" "int (length (grid s)) = ROWS"
    "next_piece s = pieceFromType t"
  shows "sessionInv s1"
proof -
  from assms(1) obtain c g v s2 where c: "current s = Some c"
    and g: "merge (grid s) c = Inr g"
    and cl: "clearLines (s\<lparr>grid := g\<rparr>) = Inr (v, s2)"
    and sp: "spawn nx s2 = Inr s1"
    by (auto simp: tickLock_def thenE_def split: option.splits sum.splits)
  from g assms(2) have "int (length g) = ROWS"
    by (auto simp: merge_def dest: mergeCells_props)
  with clearLines_inv[OF cl] assms(3) show ?thesis
    by (intro spawn_inv[OF sp]) auto
qed

lemma move_inv: "move dx dy s = Inr s1 \<Longrightarrow> sessionInv s \<Longrightarrow> sessionInv s1"
  by (auto simp: move_def sessionInv_def Let_def thenE_def split: sum.splits if_splits option.splits)

lemma tryKicks_shape:
  "tryKicks g p ks = Inr (Some w) \<Longrightarrow> shape w = shape p \<and> collides g w = Inr False"
  by (induction ks) (auto simp: Let_def thenE_def split: sum.splits if_splits)

lemma rotateCurrent_inv: "rotateCurrent s = Inr s1 \<Longrightarrow> sessionInv s \<Longrightarrow> sessionInv s1"
  by (auto simp: rotateCurrent_def sessionInv_def Let_def thenE_def rotate_piece_def
      dest!: tryKicks_shape split: sum.splits if_splits option.splits)

lemma togglePause_inv: "sessionInv s \<Longrightarrow> sessionInv (togglePause now s)"
  by (auto simp: togglePause_def sessionInv_def Let_def split: option.splits)

lemma doHold_inv:
  assumes "doHold nx s = Inr s1" "sessionInv s"
  shows "sessionInv s1"
proof (cases "paused s \<or> over s \<or> holdUsed s \<or> current s = None")
  case True
  with assms show ?thesis by (simp add: doHold_def)
next
  case go: False
  show ?thesis
  proof (cases "holdType s")
    case None
    with go assms(1) obtain s2 where sp: "spawn nx (s\<lparr>holdType := Some (ptype (the (current s)))\<rparr>) = Inr s2"
      and s1: "s1 = s2\<lparr>holdUsed := True\<rparr>"
      by (auto simp: doHold_def Let_def thenE_def split: sum.splits)
    from assms(2) have "sessionInv s2"
      by (intro spawn_inv[OF sp, of "ptype (next_piece s)"]) (auto simp: sessionInv_def)
    with s1 show ?thesis by (auto simp: sessionInv_def split: option.splits)
  next
    case (Some h)
    with go assms show ?thesis
      by (auto simp: doHold_def Let_def thenE_def sessionInv_def pieceFromType_def length_SHAPES
          split: sum.splits if_splits)
  qed
qed

lemma update_inv:
  assumes "update time nx s = Inr s1" "sessionInv s"
  shows "sessionInv s1"
proof -
  let ?s2 = "s\<lparr>lastTime := time, dropAccum := dropAccum s + (time - lastTime s), dropAccum := 0\<rparr>"
  have tl: "sessionInv s1" if "tickLock nx ?s2 = Inr s1"
    using assms(2) by (intro tickLock_inv[OF that, of "ptype (next_piece s)"]) (auto simp: sessionInv_def)
  from assms tl show ?thesis
    by (auto simp: update_def Let_def thenE_def sessionInv_def
        split: if_splits option.splits sum.splits)
qed

lemma hardDrop_inv:
  assumes "hardDrop nx s = Some (Inr s1)" "sessionInv s"
  shows "sessionInv s1"
proof -
  from assms(2) obtain c where c: "current s = Some c" "length (shape c) = 4"
    and t: "next_piece s = pieceFromType (ptype (next_piece s))"
    and len: "int (length (grid s)) = ROWS"
    by (auto simp: sessionInv_def split: option.splits)
  from c(2) have "shape c \<noteq> []" by auto
  from dropLoop_total[OF len this, of False] obtain k where
    k: "dropLoop (grid s) c False = Some (Inr (c\<lparr>py := py c + int k\<rparr>, 0 < k))"
    by auto
  show ?thesis
  proof (cases "0 < k")
    case True
    with assms(1) c k have "tickLock nx (s\<lparr>current := Some (c\<lparr>py := py c + int k\<rparr>)\<rparr>) = Inr s1"
      by (simp add: hardDrop_def Let_def)
    then show ?thesis
      using len t
      by (intro tickLock_inv[of nx "s\<lparr>current := Some (c\<lparr>py := py c + int k\<rparr>)\<rparr>" s1
            "ptype (next_piece s)"]) auto
  next
    case False
    with assms c k show ?thesis
      by (auto simp: hardDrop_def Let_def sessionInv_def split: option.splits)
  qed
qed

lemma keydown_inv: "keydown k nx now s = Some (Inr s1) \<Longrightarrow> sessionInv s \<Longrightarrow> sessionInv s1"
  by (cases k)
    (auto simp: keydown_def split: if_splits
      intro: move_inv rotateCurrent_inv togglePause_inv doHold_inv hardDrop_inv)

lemma press_inv: "press b nx now s = Some (Inr s1) \<Longrightarrow> sessionInv s \<Longrightarrow> sessionInv s1"
  by (cases b)
    (auto simp: press_def split: if_splits
      intro: move_inv rotateCurrent_inv togglePause_inv doHold_inv hardDrop_inv)

lemma countFull_createGrid: "countFull (createGrid COLS ROWS) = 0"
  by (auto simp: countFull_def createGrid_def COLS_def ROWS_def rowFull_def truthy_def
      filter_empty_conv list_all_iff)

lemma reset_inv:
  assumes "reset r1 r2 now s = Inr s1"
  shows "sessionInv s1"
proof -
  let ?s0 = "s\<lparr>grid := createGrid COLS ROWS, score := Number 0, lines := 0, level := 1,
                  dropInterval := 800, over := False, paused := False, holdType := None,
                  holdUsed := False, current := None, next_piece := randomPiece r1\<rparr>"
  from assms obtain s2 where sp: "spawn r2 ?s0 = Inr s2"
    and s1: "s1 = s2\<lparr>lastTime := now, dropAccum := 0\<rparr>"
    by (auto simp: reset_def Let_def thenE_def split: sum.splits)
  have "sessionInv s2"
    by (rule spawn_inv[OF sp, of r1])
      (simp_all add: countFull_createGrid randomPiece_def, simp add: createGrid_def ROWS_def)
  with s1 show ?thesis by (auto simp: sessionInv_def split: option.splits)
qed

lemma handle_inv: "handle e s = Some (Inr s1) \<Longrightarrow> sessionInv s \<Longrightarrow> sessionInv s1"
  by (cases e) (auto intro: keydown_inv press_inv update_inv reset_inv)

lemma reachable_inv: "reachable s \<Longrightarrow> sessionInv s"
  by (induction rule: reachable.induct) (auto intro: reset_inv handle_inv)

lemma run_reachable: "reachable s \<Longrightarrow> run es s = Some (Inr s1) \<Longrightarrow> reachable s1"
proof (induction es arbitrary: s)
  case Nil
  then show ?case by simp
next
  case (Cons e es)
  from Cons.prems(2) obtain s2 where h: "handle e s = Some (Inr s2)" and r: "run es s2 = Some (Inr s1)"
    by (auto split: option.splits sum.splits)
  from Cons.prems(1) h have "reachable s2" by (rule reachable.step)
  then show ?case using r by (rule Cons.IH)
qed

lemma play_reachable: "play r0 r1 r2 now es = Some (Inr s) \<Longrightarrow> reachable s"
  by (auto simp: play_def split: sum.splits intro: run_reachable reachable.boot)

lemma reachable_beforeLock: "reachable beforeLock"
proof -
  have "play TetO TetI TetI 0 fillBottom = Some (Inr beforeLock)"
    by code_simp
  then show ?thesis by (rule play_reachable)
qed

lemma spawn_score:
  "int (length (grid s)) = ROWS \<Longrightarrow> \<exists>s1. spawn nx s = Inr s1 \<and> score s1 = score s"
  using collides_total[of "grid s" "(next_piece s)\<lparr>px := 3, py := - 2, rot := 0\<rparr>"]
  by (auto simp: spawn_def Let_def thenE_def)

lemma scoreTable_nth: "n \<le> 4 \<Longrightarrow> scoreTable n = Number ([0, 40, 100, 300, 1200] ! n)"
  by (simp add: scoreTable_def)

subsection \<open>Rotation as a search\<close>

lemma tryKicks_find:
  assumes "int (length g) = ROWS"
  shows "tryKicks g p ks =
     Inr (find (\<lambda>w. collides g w = Inr False) (map (\<lambda>k. p\<lparr>px := px p + k\<rparr>) ks))"
proof (induction ks)
  case Nil
  then show ?case by simp
next
  case (Cons k ks)
  from collides_total[OF assms, of "p\<lparr>px := px p + k\<rparr>"] obtain b
    where "collides g (p\<lparr>px := px p + k\<rparr>) = Inr b" by auto
  with Cons show ?case
    by (simp add: Let_def thenE_def)
qed

lemma rotateCurrent_find:
  assumes "int (length (grid s)) = ROWS" "current s = Some c"
  shows "rotateCurrent s =
     Inr (case find (\<lambda>w. collides (grid s) w = Inr False)
                 (map (\<lambda>k. (rotate_piece c)\<lparr>px := px c + k\<rparr>) [0, - 1, 1, - 2, 2]) of
            Some w \<Rightarrow> s\<lparr>current := Some w\<rparr>
          | None \<Rightarrow> s)"
proof -
  let ?p = "rotate_piece c"
  have px: "px ?p = px c" by (simp add: rotate_piece_def)
  from collides_total[OF assms(1), of ?p] obtain b where b: "collides (grid s) ?p = Inr b"
    by auto
  have same: "?p\<lparr>px := px c\<rparr> = ?p"
    using px by simp
  show ?thesis
  proof (cases b)
    case True
    with b assms(2) show ?thesis
      by (simp add: rotateCurrent_def Let_def thenE_def tryKicks_find[OF assms(1)] px same
          del: tryKicks.simps)
  next
    case False
    with b assms(2) show ?thesis
      by (simp add: rotateCurrent_def Let_def thenE_def same)
  qed
qed

lemma collides_visibleInBounds:
  assumes "collides g p = Inr False"
  shows "visibleInBounds p"
  using collidesCells_FalseD[OF assms[unfolded collides_def]]
  by (fastforce simp: visibleInBounds_def list_all_iff)

lemma find_SomeD: "find P xs = Some w \<Longrightarrow> P w"
  by (induction xs) (auto split: if_splits)

subsection \<open>The drop interval, level by level\<close>

lemma speedUp_table:
  "map (\<lambda>k. (speedUp ^^ k) 800) [0..<15] =
     [800, 680, 578, 491, 417, 354, 300, 255, 216, 183, 155, 131, 111, 94, 80]"
  by (simp add: upt_rec speedUp_code eval_nat_numeral)

lemma speedUp_floor: "(speedUp ^^ (n + 14)) 800 = 80"
proof (induction n)
  case 0
  have "(speedUp ^^ 14) 800 = map (\<lambda>k. (speedUp ^^ k) 800) [0..<15] ! 14"
    by (simp del: upt_Suc funpow.simps)
  then show ?case by (simp only: speedUp_table) simp
next
  case (Suc n)
  have "(speedUp ^^ (Suc n + 14)) 800 = speedUp ((speedUp ^^ (n + 14)) 800)"
    by (simp only: add_Suc funpow.simps o_apply)
  also have "\<dots> = speedUp 80"
    by (simp only: Suc)
  also have "\<dots> = 80"
    by (simp add: speedUp_code)
  finally show ?case .
qed

lemma spawn_speed: "spawn nx s = Inr s1 \<Longrightarrow> speedInv s \<Longrightarrow> speedInv s1"
  by (auto simp: spawn_def speedInv_def Let_def thenE_def split: sum.splits if_splits)

lemma clearLines_speed:
  assumes "clearLines s = Inr (v, s1)" "speedInv s"
  shows "speedInv s1"
proof -
  from assms(2) have "1 \<le> level s" by (simp add: speedInv_def)
  then have "nat (level s) = Suc (nat (level s - 1))" by linarith
  with assms show ?thesis
    by (auto simp: clearLines_def speedInv_def Let_def thenE_def
        split: sum.splits prod.splits if_splits)
qed

lemma tickLock_speed:
  assumes "tickLock nx s = Inr s1" "speedInv s"
  shows "speedInv s1"
proof -
  from assms(1) obtain c g v s2 where cl: "clearLines (s\<lparr>grid := g\<rparr>) = Inr (v, s2)"
    and sp: "spawn nx s2 = Inr s1"
    by (auto simp: tickLock_def thenE_def split: option.splits sum.splits)
  from assms(2) have "speedInv (s\<lparr>grid := g\<rparr>)" by (simp add: speedInv_def)
  from spawn_speed[OF sp clearLines_speed[OF cl this]] show ?thesis .
qed

lemma move_speed: "move dx dy s = Inr s1 \<Longrightarrow> speedInv s \<Longrightarrow> speedInv s1"
  by (auto simp: move_def speedInv_def Let_def thenE_def split: option.splits sum.splits if_splits)

lemma rotateCurrent_speed: "rotateCurrent s = Inr s1 \<Longrightarrow> speedInv s \<Longrightarrow> speedInv s1"
  by (auto simp: rotateCurrent_def speedInv_def Let_def thenE_def
      split: option.splits sum.splits if_splits)

lemma togglePause_speed: "speedInv s \<Longrightarrow> speedInv (togglePause now s)"
  by (simp add: togglePause_def speedInv_def Let_def)

lemma doHold_speed:
  assumes "doHold nx s = Inr s1" "speedInv s"
  shows "speedInv s1"
proof (cases "paused s \<or> over s \<or> holdUsed s \<or> current s = None")
  case True
  with assms show ?thesis by (simp add: doHold_def)
next
  case go: False
  show ?thesis
  proof (cases "holdType s")
    case None
    with go assms(1) obtain s2 where sp: "spawn nx (s\<lparr>holdType := Some (ptype (the (current s)))\<rparr>) = Inr s2"
      and s1: "s1 = s2\<lparr>holdUsed := True\<rparr>"
      by (auto simp: doHold_def Let_def thenE_def split: sum.splits)
    from assms(2) have "speedInv (s\<lparr>holdType := Some (ptype (the (current s)))\<rparr>)"
      by (simp add: speedInv_def)
    from spawn_speed[OF sp this] s1 show ?thesis by (simp add: speedInv_def)
  next
    case (Some h)
    with go assms show ?thesis
      by (auto simp: doHold_def Let_def thenE_def speedInv_def split: sum.splits if_splits)
  qed
qed

lemma update_speed:
  assumes "update time nx s = Inr s1" "speedInv s"
  shows "speedInv s1"
proof -
  let ?s2 = "s\<lparr>lastTime := time, dropAccum := dropAccum s + (time - lastTime s), dropAccum := 0\<rparr>"
  have tl: "speedInv s1" if "tickLock nx ?s2 = Inr s1"
    using assms(2) by (intro tickLock_speed[OF that]) (simp add: speedInv_def)
  from assms tl show ?thesis
    by (auto simp: update_def Let_def thenE_def speedInv_def
        split: if_splits option.splits sum.splits)
qed

lemma hardDrop_speed:
  assumes "hardDrop nx s = Some (Inr s1)" "speedInv s"
  shows "speedInv s1"
proof -
  have tl: "speedInv s1" if "tickLock nx (s\<lparr>current := Some c1\<rparr>) = Inr s1" for c1
    using assms(2) by (intro tickLock_speed[OF that]) (simp add: speedInv_def)
  from assms tl show ?thesis
    by (auto simp: hardDrop_def Let_def speedInv_def
        split: option.splits sum.splits if_splits)
qed

lemma reset_speed:
  assumes "reset r1 r2 now s = Inr s1"
  shows "speedInv s1"
proof -
  let ?s0 = "s\<lparr>grid := createGrid COLS ROWS, score := Number 0, lines := 0, level := 1,
                  dropInterval := 800, over := False, paused := False, holdType := None,
                  holdUsed := False, current := None, next_piece := randomPiece r1\<rparr>"
  from assms obtain s2 where sp: "spawn r2 ?s0 = Inr s2"
    and s1: "s1 = s2\<lparr>lastTime := now, dropAccum := 0\<rparr>"
    by (auto simp: reset_def Let_def thenE_def split: sum.splits)
  have "speedInv ?s0" by (simp add: speedInv_def)
  from spawn_speed[OF sp this] s1 show ?thesis by (simp add: speedInv_def)
qed

lemma keydown_speed: "keydown k nx now s = Some (Inr s1) \<Longrightarrow> speedInv s \<Longrightarrow> speedInv s1"
  by (cases k)
    (auto simp: keydown_def split: if_splits
      intro: move_speed rotateCurrent_speed togglePause_speed doHold_speed hardDrop_speed)

lemma press_speed: "press b nx now s = Some (Inr s1) \<Longrightarrow> speedInv s \<Longrightarrow> speedInv s1"
  by (cases b)
    (auto simp: press_def split: if_splits
      intro: move_speed rotateCurrent_speed togglePause_speed doHold_speed hardDrop_speed)

lemma handle_speed: "handle e s = Some (Inr s1) \<Longrightarrow> speedInv s \<Longrightarrow> speedInv s1"
  by (cases e) (auto intro: keydown_speed press_speed update_speed reset_speed)

lemma reachable_speed: "reachable s \<Longrightarrow> speedInv s"
  by (induction rule: reachable.induct) (auto intro: reset_speed handle_speed)

subsection \<open>Where the game-over flag is set\<close>

lemma fresh_free: "t \<noteq> TetS \<Longrightarrow> t \<noteq> TetZ \<Longrightarrow> collides g (pieceFromType t) = Inr False"
  by (cases t) (simp_all add: collides_def pieceFromType_def)

lemma fresh_above:
  "t \<noteq> TetS \<Longrightarrow> t \<noteq> TetZ \<Longrightarrow>
   list_all (\<lambda>(cx, cy). py (pieceFromType t) + cy < 0) (shape (pieceFromType t))"
  by (cases t) (simp_all add: pieceFromType_def)

lemma anchor_fresh: "(pieceFromType t)\<lparr>px := 3, py := - 2, rot := 0\<rparr> = pieceFromType t"
  by (simp add: pieceFromType_def)

lemma spawn_over:
  assumes "spawn nx s = Inr s1" "next_piece s = pieceFromType t" "over s1" "\<not> over s"
  shows "current s1 = Some (pieceFromType t) \<and> (t = TetS \<or> t = TetZ)"
proof -
  from assms have "collides (grid s) (pieceFromType t) = Inr True" "current s1 = Some (pieceFromType t)"
    by (auto simp: spawn_def Let_def thenE_def anchor_fresh split: sum.splits if_splits)
  with fresh_free[of t "grid s"] show ?thesis by auto
qed

lemma clearLines_keeps:
  "clearLines s = Inr (v, s1) \<Longrightarrow> over s1 = over s \<and> next_piece s1 = next_piece s"
  by (auto simp: clearLines_def thenE_def Let_def split: sum.splits prod.splits if_splits)

lemma tickLock_over:
  assumes "tickLock nx s = Inr s1" "next_piece s = pieceFromType t" "over s1" "\<not> over s"
  shows "current s1 = Some (pieceFromType t) \<and> (t = TetS \<or> t = TetZ)"
proof -
  from assms(1) obtain c g v s2 where cl: "clearLines (s\<lparr>grid := g\<rparr>) = Inr (v, s2)"
    and sp: "spawn nx s2 = Inr s1"
    by (auto simp: tickLock_def thenE_def split: option.splits sum.splits)
  from clearLines_keeps[OF cl] assms(2,4) have "next_piece s2 = pieceFromType t" "\<not> over s2"
    by auto
  from spawn_over[OF sp this(1) assms(3) this(2)] show ?thesis .
qed

lemma move_over: "move dx dy s = Inr s1 \<Longrightarrow> over s1 = over s"
  by (auto simp: move_def Let_def thenE_def split: option.splits sum.splits if_splits)

lemma rotateCurrent_over: "rotateCurrent s = Inr s1 \<Longrightarrow> over s1 = over s"
  by (auto simp: rotateCurrent_def Let_def thenE_def split: option.splits sum.splits if_splits)

lemma togglePause_over: "over (togglePause now s) = over s"
  by (simp add: togglePause_def Let_def)

lemma update_over:
  assumes "update time nx s = Inr s1" "next_piece s = pieceFromType t" "over s1" "\<not> over s"
  shows "current s1 = Some (pieceFromType t) \<and> (t = TetS \<or> t = TetZ)"
proof -
  let ?s2 = "s\<lparr>lastTime := time, dropAccum := dropAccum s + (time - lastTime s), dropAccum := 0\<rparr>"
  have "tickLock nx ?s2 = Inr s1"
    using assms(1,3,4)
    by (auto simp: update_def Let_def thenE_def split: if_splits option.splits sum.splits)
  from tickLock_over[OF this, of t] assms(2,3,4) show ?thesis by simp
qed

lemma hardDrop_over:
  assumes "hardDrop nx s = Some (Inr s1)" "next_piece s = pieceFromType t" "over s1" "\<not> over s"
  shows "current s1 = Some (pieceFromType t) \<and> (t = TetS \<or> t = TetZ)"
proof -
  from assms(1,3,4) obtain c1 where "tickLock nx (s\<lparr>current := Some c1\<rparr>) = Inr s1"
    by (auto simp: hardDrop_def Let_def split: option.splits sum.splits if_splits)
  from tickLock_over[OF this, of t] assms(2,3,4) show ?thesis by simp
qed

lemma doHold_over:
  assumes "doHold nx s = Inr s1" "next_piece s = pieceFromType t" "over s1" "\<not> over s"
  shows "\<exists>u. current s1 = Some (pieceFromType u) \<and> (u = TetS \<or> u = TetZ)"
proof (cases "holdType s")
  case None
  with assms(1,3,4) obtain s2 where sp: "spawn nx (s\<lparr>holdType := Some (ptype (the (current s)))\<rparr>) = Inr s2"
    and s1: "s1 = s2\<lparr>holdUsed := True\<rparr>"
    by (auto simp: doHold_def Let_def thenE_def split: sum.splits if_splits)
  from spawn_over[OF sp, of t] assms(2,3,4) s1 show ?thesis by auto
next
  case (Some h)
  with assms(1,3,4) have "collides (grid s) (pieceFromType h) = Inr True"
    and "current s1 = Some (pieceFromType h)"
    by (auto simp: doHold_def Let_def thenE_def split: sum.splits if_splits)
  with fresh_free[of h "grid s"] show ?thesis by auto
qed

lemma reset_over:
  assumes "reset r1 r2 now s = Inr s1" "over s1"
  shows "current s1 = Some (pieceFromType r1) \<and> (r1 = TetS \<or> r1 = TetZ)"
proof -
  let ?s0 = "s\<lparr>grid := createGrid COLS ROWS, score := Number 0, lines := 0, level := 1,
                  dropInterval := 800, over := False, paused := False, holdType := None,
                  holdUsed := False, current := None, next_piece := randomPiece r1\<rparr>"
  from assms obtain s2 where sp: "spawn r2 ?s0 = Inr s2"
    and s1: "s1 = s2\<lparr>lastTime := now, dropAccum := 0\<rparr>"
    by (auto simp: reset_def Let_def thenE_def split: sum.splits)
  from spawn_over[OF sp, of r1] assms(2) s1 show ?thesis
    by (simp add: randomPiece_def)
qed

lemma keydown_over:
  assumes "keydown k nx now s = Some (Inr s1)" "next_piece s = pieceFromType t" "over s1" "\<not> over s"
  shows "\<exists>u. current s1 = Some (pieceFromType u) \<and> (u = TetS \<or> u = TetZ)"
  using assms
  by (cases k)
    (auto simp: keydown_def togglePause_over split: if_splits
      dest: move_over rotateCurrent_over hardDrop_over doHold_over)

lemma press_over:
  assumes "press b nx now s = Some (Inr s1)" "next_piece s = pieceFromType t" "over s1" "\<not> over s"
  shows "\<exists>u. current s1 = Some (pieceFromType u) \<and> (u = TetS \<or> u = TetZ)"
  using assms
  by (cases b)
    (auto simp: press_def togglePause_over split: if_splits
      dest: move_over rotateCurrent_over hardDrop_over doHold_over)

lemma handle_over:
  assumes "handle e s = Some (Inr s1)" "next_piece s = pieceFromType t" "over s1" "\<not> over s"
  shows "\<exists>u. current s1 = Some (pieceFromType u) \<and> (u = TetS \<or> u = TetZ)"
  using assms
  by (cases e) (auto dest: keydown_over press_over update_over reset_over)

lemma reachable_columnBuilt: "reachable columnBuilt"
proof -
  have "play TetT TetI TetI 0 buildColumn = Some (Inr columnBuilt)"
    by code_simp
  then show ?thesis by (rule play_reachable)
qed

subsection \<open>No handler raises or hangs in a reachable session\<close>

text \<open>
  The model follows a session only through handler runs that return. In a reachable
  session every handler does return, so these are all the sessions the script can
  be in.
\<close>

lemma spawn_total: "int (length (grid s)) = ROWS \<Longrightarrow> \<exists>s1. spawn nx s = Inr s1"
  using spawn_score[of s nx] by blast

lemma clearLines_total:
  "int (length (grid s)) = ROWS \<Longrightarrow> \<exists>s1. clearLines s = Inr (Undefined, s1)"
  by (simp add: clearLines_eq)

lemma tickLock_total:
  assumes "int (length (grid s)) = ROWS" "current s = Some c" "collides (grid s) c = Inr False"
  shows "\<exists>s1. tickLock nx s = Inr s1"
proof -
  from merge_total[OF assms(3)] obtain g where g: "merge (grid s) c = Inr g"
    by auto
  with assms(1) have len: "int (length (grid (s\<lparr>grid := g\<rparr>))) = ROWS"
    by (auto simp: merge_def dest: mergeCells_props)
  from clearLines_total[OF len] obtain s2 where cl: "clearLines (s\<lparr>grid := g\<rparr>) = Inr (Undefined, s2)"
    by auto
  from clearLines_inv[OF cl len] have "int (length (grid s2)) = ROWS" by simp
  from spawn_total[OF this, of nx] obtain s1 where "spawn nx s2 = Inr s1" by auto
  with assms(2) g cl show ?thesis
    by (simp add: tickLock_def thenE_def)
qed

lemma move_total:
  assumes "int (length (grid s)) = ROWS" "current s = Some c"
  shows "\<exists>s1. move dx dy s = Inr s1"
  using assms(2) collides_total[OF assms(1), of "c\<lparr>px := px c + dx, py := py c + dy\<rparr>"]
  by (auto simp: move_def Let_def thenE_def)

lemma rotateCurrent_total:
  assumes "int (length (grid s)) = ROWS" "current s = Some c"
  shows "\<exists>s1. rotateCurrent s = Inr s1"
  by (simp add: rotateCurrent_find[OF assms])

lemma doHold_total:
  assumes "int (length (grid s)) = ROWS"
  shows "\<exists>s1. doHold nx s = Inr s1"
proof (cases "paused s \<or> over s \<or> holdUsed s \<or> current s = None")
  case True
  then show ?thesis by (simp add: doHold_def)
next
  case go: False
  show ?thesis
  proof (cases "holdType s")
    case None
    from spawn_total[of "s\<lparr>holdType := Some (ptype (the (current s)))\<rparr>" nx] assms
    obtain s2 where "spawn nx (s\<lparr>holdType := Some (ptype (the (current s)))\<rparr>) = Inr s2"
      by auto
    with go None show ?thesis
      by (simp add: doHold_def Let_def thenE_def)
  next
    case (Some h)
    from collides_total[OF assms, of "pieceFromType h"] obtain b
      where "collides (grid s) (pieceFromType h) = Inr b" by auto
    with go Some show ?thesis
      by (simp add: doHold_def Let_def thenE_def)
  qed
qed

lemma update_total:
  assumes "sessionInv s"
  shows "\<exists>s1. update time nx s = Inr s1"
proof (cases "paused s \<or> over s")
  case True
  then show ?thesis by (simp add: update_def)
next
  case go: False
  with assms obtain c where c: "current s = Some c" "collides (grid s) c = Inr False"
    and len: "int (length (grid s)) = ROWS"
    by (auto simp: sessionInv_def split: option.splits)
  let ?s2 = "s\<lparr>lastTime := time, dropAccum := dropAccum s + (time - lastTime s), dropAccum := 0\<rparr>"
  from collides_total[OF len, of "c\<lparr>py := py c + 1\<rparr>"] obtain b
    where b: "collides (grid s) (c\<lparr>py := py c + 1\<rparr>) = Inr b" by auto
  from tickLock_total[of ?s2 c nx] len c obtain s3 where "tickLock nx ?s2 = Inr s3"
    by auto
  with go c b show ?thesis
    by (simp add: update_def Let_def thenE_def)
qed

lemma hardDrop_total:
  assumes "sessionInv s"
  shows "\<exists>s1. hardDrop nx s = Some (Inr s1)"
proof -
  from assms obtain c where c: "current s = Some c" "length (shape c) = 4"
    and len: "int (length (grid s)) = ROWS"
    by (auto simp: sessionInv_def split: option.splits)
  from c(2) have "shape c \<noteq> []" by auto
  from dropLoop_total[OF len this, of False] obtain k where
    k: "dropLoop (grid s) c False = Some (Inr (c\<lparr>py := py c + int k\<rparr>, 0 < k))"
      "\<forall>j. 1 \<le> j \<and> j \<le> k \<longrightarrow> collides (grid s) (c\<lparr>py := py c + int j\<rparr>) = Inr False"
    by auto
  show ?thesis
  proof (cases "0 < k")
    case True
    with k(2) have "collides (grid s) (c\<lparr>py := py c + int k\<rparr>) = Inr False"
      by simp
    from tickLock_total[of "s\<lparr>current := Some (c\<lparr>py := py c + int k\<rparr>)\<rparr>" _ nx] len this
    obtain s1 where "tickLock nx (s\<lparr>current := Some (c\<lparr>py := py c + int k\<rparr>)\<rparr>) = Inr s1"
      by auto
    with True c k(1) show ?thesis
      by (simp add: hardDrop_def Let_def)
  next
    case False
    with c k(1) show ?thesis
      by (simp add: hardDrop_def Let_def)
  qed
qed

lemma reset_total: "\<exists>s1. reset r1 r2 now s = Inr s1"
proof -
  let ?s0 = "s\<lparr>grid := createGrid COLS ROWS, score := Number 0, lines := 0, level := 1,
                  dropInterval := 800, over := False, paused := False, holdType := None,
                  holdUsed := False, current := None, next_piece := randomPiece r1\<rparr>"
  have "int (length (grid ?s0)) = ROWS"
    by (simp add: createGrid_def ROWS_def)
  from spawn_total[OF this, of r2] obtain s2 where "spawn r2 ?s0 = Inr s2" by auto
  then show ?thesis
    by (simp add: reset_def Let_def thenE_def)
qed

lemma handle_total:
  assumes "sessionInv s"
  shows "\<exists>s1. handle e s = Some (Inr s1)"
proof -
  from assms obtain c where c: "current s = Some c" and len: "int (length (grid s)) = ROWS"
    by (auto simp: sessionInv_def split: option.splits)
  note ops = move_total[OF len c] rotateCurrent_total[OF len c] doHold_total[OF len]
    hardDrop_total[OF assms] update_total[OF assms] reset_total
  show ?thesis
  proof (cases e)
    case (KeyDown k nx now)
    with ops show ?thesis
      by (cases k) (auto simp: keydown_def)
  next
    case (Press b nx now)
    with ops show ?thesis
      by (cases b) (auto simp: press_def)
  next
    case (Frame time nx)
    with ops show ?thesis by auto
  next
    case (Restart r1 r2 now)
    with ops show ?thesis by auto
  qed
qed

lemma reachable_step_total: "reachable s \<Longrightarrow> \<exists>s1. handle e s = Some (Inr s1) \<and> reachable s1"
  using handle_total[OF reachable_inv, of s e] by (auto intro: reachable.step)

lemma boot_total: "\<exists>s. reset r1 r2 now (initState r0) = Inr s \<and> reachable s"
  using reset_total[of r1 r2 now "initState r0"] by (auto intro: reachable.boot)

subsection \<open>What a lock does\<close>

text \<open>
  \<open>tickLock\<close> on a piece that does not collide returns. It merges the piece, removes
  the full rows and counts them into \<open>lines\<close> and \<open>score\<close>, makes the next piece the
  active one at the spawn anchor and draws a new next piece; the game is over
  afterwards if it was before or the new active piece collides.
\<close>

lemma clearLines_fields:
  assumes "int (length (grid s)) = ROWS"
  shows "\<exists>s1. clearLines s = Inr (Undefined, s1)
     \<and> grid s1 = replicate (countFull (grid s)) emptyRow @ filter (\<lambda>r. \<not> rowFull r) (grid s)
     \<and> lines s1 = lines s + int (countFull (grid s))
     \<and> score s1 = (if countFull (grid s) = 0 then score s
                    else js_plus (score s) (js_times (scoreTable (countFull (grid s))) (level s)))
     \<and> next_piece s1 = next_piece s \<and> over s1 = over s"
  by (simp add: clearLines_eq[OF assms] Let_def)

lemma spawn_fields:
  assumes "int (length (grid s)) = ROWS"
  shows "\<exists>s1. spawn nx s = Inr s1 \<and> grid s1 = grid s \<and> lines s1 = lines s \<and> score s1 = score s
     \<and> current s1 = Some ((next_piece s)\<lparr>px := 3, py := - 2, rot := 0\<rparr>)
     \<and> next_piece s1 = randomPiece nx \<and> holdUsed s1 = False
     \<and> over s1 = (over s \<or> collides (grid s) ((next_piece s)\<lparr>px := 3, py := - 2, rot := 0\<rparr>) = Inr True)"
proof -
  from collides_total[OF assms, of "(next_piece s)\<lparr>px := 3, py := - 2, rot := 0\<rparr>"]
  obtain b where "collides (grid s) ((next_piece s)\<lparr>px := 3, py := - 2, rot := 0\<rparr>) = Inr b"
    by auto
  then show ?thesis
    by (cases b) (simp_all add: spawn_def Let_def thenE_def)
qed

lemma tickLock_effect:
  assumes len: "int (length (grid s)) = ROWS" and cur: "current s = Some d"
    and free: "collides (grid s) d = Inr False"
  shows "\<exists>g s1. tickLock nx s = Inr s1 \<and> isMerged (grid s) d g
     \<and> grid s1 = replicate (countFull g) emptyRow @ filter (\<lambda>r. \<not> rowFull r) g
     \<and> lines s1 = lines s + int (countFull g)
     \<and> score s1 = (if countFull g = 0 then score s
                    else js_plus (score s) (js_times (scoreTable (countFull g)) (level s)))
     \<and> current s1 = Some ((next_piece s)\<lparr>px := 3, py := - 2, rot := 0\<rparr>)
     \<and> next_piece s1 = randomPiece nx \<and> holdUsed s1 = False
     \<and> over s1 = (over s \<or> collides (grid s1) ((next_piece s)\<lparr>px := 3, py := - 2, rot := 0\<rparr>) = Inr True)"
proof -
  from merge_isMerged[OF free] obtain g where g: "merge (grid s) d = Inr g" "isMerged (grid s) d g"
    by auto
  let ?sg = "s\<lparr>grid := g\<rparr>"
  from g(2) len have leng: "int (length (grid ?sg)) = ROWS"
    by (simp add: isMerged_def)
  from clearLines_fields[OF leng] obtain s2 where
    cl: "clearLines ?sg = Inr (Undefined, s2)"
    and f2: "grid s2 = replicate (countFull g) emptyRow @ filter (\<lambda>r. \<not> rowFull r) g"
      "lines s2 = lines s + int (countFull g)"
      "score s2 = (if countFull g = 0 then score s
                    else js_plus (score s) (js_times (scoreTable (countFull g)) (level s)))"
      "next_piece s2 = next_piece s" "over s2 = over s"
    by auto
  from f2(1) leng length_cleared[of g] have len2: "int (length (grid s2)) = ROWS"
    by simp
  from spawn_fields[OF len2, of nx] obtain s1 where
    sp: "spawn nx s2 = Inr s1"
    and f1: "grid s1 = grid s2" "lines s1 = lines s2" "score s1 = score s2"
      "current s1 = Some ((next_piece s2)\<lparr>px := 3, py := - 2, rot := 0\<rparr>)"
      "next_piece s1 = randomPiece nx" "holdUsed s1 = False"
      "over s1 = (over s2 \<or> collides (grid s2) ((next_piece s2)\<lparr>px := 3, py := - 2, rot := 0\<rparr>) = Inr True)"
    by auto
  from cur g(1) cl sp have run: "tickLock nx s = Inr s1"
    by (simp add: tickLock_def thenE_def)
  from f1 f2 have "grid s1 = replicate (countFull g) emptyRow @ filter (\<lambda>r. \<not> rowFull r) g"
    "lines s1 = lines s + int (countFull g)"
    "score s1 = (if countFull g = 0 then score s
                    else js_plus (score s) (js_times (scoreTable (countFull g)) (level s)))"
    "current s1 = Some ((next_piece s)\<lparr>px := 3, py := - 2, rot := 0\<rparr>)"
    "over s1 = (over s \<or> collides (grid s1) ((next_piece s)\<lparr>px := 3, py := - 2, rot := 0\<rparr>) = Inr True)"
    by simp_all
  with run g(2) f1(5,6) show ?thesis by blast
qed

lemma reachable_levelTwo: "reachable levelTwo"
proof -
  have "play TetO TetO TetO 0 tenLines = Some (Inr levelTwo)"
    by code_simp
  then show ?thesis by (rule play_reachable)
qed

lemma reachable_toppedOut: "reachable toppedOut"
proof -
  have "play TetT TetI TetI 0 fillColumn = Some (Inr toppedOut)"
    by code_simp
  then show ?thesis by (rule play_reachable)
qed

section \<open>The properties C1 to C10\<close>

subsection \<open>Line clearing: which variables it writes\<close>

text \<open>
  C1 as stated: \<open>clearLines\<close> leaves \<open>score\<close>, \<open>lines\<close>, \<open>level\<close> and \<open>dropInterval\<close>
  unchanged in every session. It does not: in \<open>nearLevelUp\<close> one row is full, and the
  call adds 40 to the score, 1 to the lines, raises the level and shortens the drop
  interval.
\<close>

theorem clearLines_changes_counters:
  "clearLines nearLevelUp = Inr (Undefined, afterLevelUp)
   \<and> score afterLevelUp \<noteq> score nearLevelUp
   \<and> lines afterLevelUp \<noteq> lines nearLevelUp
   \<and> level afterLevelUp \<noteq> level nearLevelUp
   \<and> dropInterval afterLevelUp \<noteq> dropInterval nearLevelUp"
  by code_simp

text \<open>
  C1 as amended. On a grid of \<open>ROWS\<close> rows \<open>clearLines\<close> returns normally. If no row is
  full the session is left exactly as it was. If \<open>n \<ge> 1\<close> rows are full, \<open>clearLines\<close>
  itself adds the table entry for \<open>n\<close> times the level to \<open>score\<close> and \<open>n\<close> to \<open>lines\<close>,
  and when \<open>lines\<close> has reached ten times the level it increments \<open>level\<close> and shortens
  \<open>dropInterval\<close>. Beyond the grid and these four counters it writes nothing: active
  piece, next piece, hold slot, flags and timers are unchanged.
\<close>

theorem clearLines_frame:
  assumes "int (length (grid s)) = ROWS"
  shows "\<exists>s1. clearLines s = Inr (Undefined, s1)
     \<and> (countFull (grid s) = 0 \<longrightarrow> s1 = s)
     \<and> (countFull (grid s) \<noteq> 0 \<longrightarrow>
          score s1 = js_plus (score s) (js_times (scoreTable (countFull (grid s))) (level s))
          \<and> lines s1 = lines s + int (countFull (grid s))
          \<and> level s1 = (if level s * 10 \<le> lines s1 then level s + 1 else level s)
          \<and> dropInterval s1 =
               (if level s * 10 \<le> lines s1 then speedUp (dropInterval s) else dropInterval s))
     \<and> current s1 = current s \<and> next_piece s1 = next_piece s
     \<and> holdType s1 = holdType s \<and> holdUsed s1 = holdUsed s
     \<and> paused s1 = paused s \<and> over s1 = over s
     \<and> lastTime s1 = lastTime s \<and> dropAccum s1 = dropAccum s"
  by (simp add: clearLines_eq[OF assms] Let_def filter_notFull_id)

text \<open>
  Both branches occur: \<open>heldOnce\<close> has an empty grid, \<open>nearLevelUp\<close> has one full row.
\<close>

theorem clearLines_frame_witness:
  "int (length (grid heldOnce)) = ROWS \<and> countFull (grid heldOnce) = 0
   \<and> clearLines heldOnce = Inr (Undefined, heldOnce)
   \<and> int (length (grid nearLevelUp)) = ROWS \<and> countFull (grid nearLevelUp) \<noteq> 0
   \<and> (\<exists>s1. clearLines nearLevelUp = Inr (Undefined, s1) \<and> lines s1 = 10 \<and> level s1 = 2
         \<and> current s1 = current nearLevelUp)"
proof -
  have h1: "int (length (grid heldOnce)) = ROWS" by code_simp
  have n1: "countFull (grid heldOnce) = 0" by code_simp
  have h2: "int (length (grid nearLevelUp)) = ROWS" by code_simp
  have n2: "countFull (grid nearLevelUp) = 1" by code_simp
  have v2: "lines nearLevelUp = 9" "level nearLevelUp = 1"
    by (simp_all add: nearLevelUp_def)
  from clearLines_frame[OF h1] n1
  have a: "clearLines heldOnce = Inr (Undefined, heldOnce)" by auto
  from clearLines_frame[OF h2] n2 v2
  have b: "\<exists>s1. clearLines nearLevelUp = Inr (Undefined, s1) \<and> lines s1 = 10 \<and> level s1 = 2
         \<and> current s1 = current nearLevelUp"
    by auto
  from h1 n1 a h2 n2 b show ?thesis by simp
qed

subsection \<open>Line clearing: its value and its counter\<close>

text \<open>
  C2 as stated: \<open>clearLines\<close> returns the number of rows it cleared. It does not: the
  function has no \<open>return\<close>, so the value of a call is \<open>undefined\<close>. In \<open>midLock\<close> the
  loop clears one row and counts 1, and the call yields \<open>undefined\<close>.
\<close>

theorem clearLines_returns_undefined:
  "clearLines midLock = Inr (Undefined, afterClear)
   \<and> clearLoop (ROWS - 1) (grid midLock) 0 = Inr (grid afterClear, 1)
   \<and> Undefined \<noteq> Number 1"
  by code_simp

text \<open>
  C2 as amended. \<open>clearLines\<close> returns \<open>undefined\<close>. The number of rows it clears in the
  pass is its local counter \<open>cleared\<close>, which it adds to \<open>lines\<close>; the counter equals the
  number of full rows of the grid, and afterwards no row is full. The function is
  invoked only from \<open>tickLock\<close>, on the grid that \<open>merge\<close> made from the grid of a
  reachable session and a piece with the four cells of the active piece; there the
  counter is between 0 and 4.
\<close>

theorem clearLines_value_and_count:
  assumes "reachable s0" "current s0 = Some c0" "shape c = shape c0"
    "merge (grid s0) c = Inr (grid s)"
  shows "\<exists>s1. clearLines s = Inr (Undefined, s1)
     \<and> clearLoop (ROWS - 1) (grid s) 0 = Inr (grid s1, countFull (grid s))
     \<and> countFull (grid s) \<le> 4
     \<and> countFull (grid s1) = 0
     \<and> lines s1 = lines s + int (countFull (grid s))"
proof -
  from reachable_inv[OF assms(1)] assms(2)
  have inv: "int (length (grid s0)) = ROWS" "countFull (grid s0) = 0" "length (shape c0) = 4"
    by (auto simp: sessionInv_def)
  from mergeCells_props[OF assms(4)[unfolded merge_def]] inv assms(3)
  have len: "int (length (grid s)) = ROWS" and four: "countFull (grid s) \<le> 4"
    by auto
  from four show ?thesis
    by (simp add: clearLines_eq[OF len] clearLoop_all[OF len] Let_def countFull_cleared
        filter_notFull_id)
qed

text \<open>
  The hard drop from \<open>beforeLock\<close> is such an invocation, and it clears one row.
\<close>

theorem clearLines_value_and_count_witness:
  "reachable beforeLock
   \<and> current beforeLock = Some ((pieceFromType TetO)\<lparr>px := 7\<rparr>)
   \<and> shape ((pieceFromType TetO)\<lparr>px := 7, py := 18\<rparr>) = shape ((pieceFromType TetO)\<lparr>px := 7\<rparr>)
   \<and> merge (grid beforeLock) ((pieceFromType TetO)\<lparr>px := 7, py := 18\<rparr>) = Inr (grid midLock)
   \<and> countFull (grid midLock) = 1
   \<and> (\<exists>s1. clearLines midLock = Inr (Undefined, s1)
         \<and> clearLoop (ROWS - 1) (grid midLock) 0 = Inr (grid s1, 1) \<and> lines s1 = 1)"
proof -
  have cur: "current beforeLock = Some ((pieceFromType TetO)\<lparr>px := 7\<rparr>)"
    by code_simp
  have sh: "shape ((pieceFromType TetO)\<lparr>px := 7, py := 18\<rparr>) = shape ((pieceFromType TetO)\<lparr>px := 7\<rparr>)"
    by simp
  have mg: "merge (grid beforeLock) ((pieceFromType TetO)\<lparr>px := 7, py := 18\<rparr>) = Inr (grid midLock)"
    by code_simp
  have n: "countFull (grid midLock) = 1"
    by code_simp
  have l: "lines midLock = 0"
    by code_simp
  from clearLines_value_and_count[OF reachable_beforeLock cur sh mg] n l
  have "\<exists>s1. clearLines midLock = Inr (Undefined, s1)
         \<and> clearLoop (ROWS - 1) (grid midLock) 0 = Inr (grid s1, 1) \<and> lines s1 = 1"
    by auto
  with reachable_beforeLock cur sh mg n show ?thesis
    by blast
qed

subsection \<open>Scoring\<close>

text \<open>
  C9. When a lock clears \<open>n\<close> rows, \<open>n\<close> between 1 and 4, in a session at level \<open>L\<close>,
  the score grows by exactly the \<open>n\<close>-th entry of \<open>[0, 40, 100, 300, 1200]\<close> times \<open>L\<close>.
  \<open>L\<close> is \<open>level s\<close>, the level before the lock, whether or not the same clear raises
  the level.
\<close>

theorem lock_score:
  assumes "int (length (grid s)) = ROWS" "current s = Some c" "merge (grid s) c = Inr g"
    "clearLoop (ROWS - 1) g 0 = Inr (g1, n)" "1 \<le> n" "n \<le> 4"
  shows "\<exists>s1. tickLock nx s = Inr s1
     \<and> score s1 = js_plus (score s) (Number ([0, 40, 100, 300, 1200] ! n * level s))"
proof -
  from mergeCells_props[OF assms(3)[unfolded merge_def]] assms(1)
  have len: "int (length g) = ROWS" by simp
  with assms(4) have n: "n = countFull g" and g1: "g1 = replicate n emptyRow @ filter (\<lambda>r. \<not> rowFull r) g"
    by (auto simp: clearLoop_all)
  let ?s = "s\<lparr>grid := g\<rparr>"
  from len have len': "int (length (grid ?s)) = ROWS" by simp
  obtain s2 where cl: "clearLines ?s = Inr (Undefined, s2)"
    and sc: "score s2 = js_plus (score s) (Number ([0, 40, 100, 300, 1200] ! n * level s))"
    and len2: "int (length (grid s2)) = ROWS"
    using assms(5,6) n length_cleared[of g] len
    by (auto simp: clearLines_eq[OF len'] Let_def scoreTable_nth)
  from spawn_score[OF len2, of nx] obtain s1 where "spawn nx s2 = Inr s1" "score s1 = score s2"
    by auto
  with cl sc assms(2,3) show ?thesis
    by (simp add: tickLock_def thenE_def)
qed

text \<open>
  In \<open>twoRows\<close> the lock clears two rows at level 3 with 28 lines: the score goes from
  500 to 800 although the level rises to 4 in the same call.
\<close>

theorem lock_score_witness:
  "int (length (grid twoRows)) = ROWS
   \<and> current twoRows = Some ((pieceFromType TetO)\<lparr>py := 18\<rparr>)
   \<and> merge (grid twoRows) ((pieceFromType TetO)\<lparr>py := 18\<rparr>) =
       Inr (replicate 18 emptyRow
         @ replicate 2 (replicate 4 (Colour ''#4dabf7'') @ [Colour ''#f1e05a'', Colour ''#f1e05a'']
                          @ replicate 4 (Colour ''#ffb74d'')))
   \<and> clearLoop (ROWS - 1) (replicate 18 emptyRow
         @ replicate 2 (replicate 4 (Colour ''#4dabf7'') @ [Colour ''#f1e05a'', Colour ''#f1e05a'']
                          @ replicate 4 (Colour ''#ffb74d''))) 0 = Inr (createGrid COLS ROWS, 2)
   \<and> score twoRows = Number 500 \<and> level twoRows = 3
   \<and> (\<exists>s1. tickLock TetL twoRows = Inr s1 \<and> score s1 = Number 800)"
proof -
  let ?c = "(pieceFromType TetO)\<lparr>py := 18\<rparr>"
  let ?g = "replicate 18 emptyRow
         @ replicate 2 (replicate 4 (Colour ''#4dabf7'') @ [Colour ''#f1e05a'', Colour ''#f1e05a'']
                          @ replicate 4 (Colour ''#ffb74d''))"
  have len: "int (length (grid twoRows)) = ROWS" by code_simp
  have cur: "current twoRows = Some ?c" by code_simp
  have mg: "merge (grid twoRows) ?c = Inr ?g" by code_simp
  have cl: "clearLoop (ROWS - 1) ?g 0 = Inr (createGrid COLS ROWS, 2)" by code_simp
  have v: "score twoRows = Number 500" "level twoRows = 3" by code_simp+
  from lock_score[OF len cur mg cl, of TetL] v
  have "\<exists>s1. tickLock TetL twoRows = Inr s1 \<and> score s1 = Number 800"
    by simp
  with len cur mg cl v show ?thesis
    by blast
qed

subsection \<open>Gravity\<close>

text \<open>
  \<open>reset\<close> sets \<open>dropInterval\<close> to 800 and every level-up in \<open>clearLines\<close> replaces it
  by \<open>speedUp\<close> of itself, so after \<open>k\<close> level-ups it is \<open>(speedUp ^^ k) 800\<close>.

  C5 as stated: this equals \<open>max(80, round(800 * 0.85^k))\<close> for every \<open>k\<close>. It does not:
  the code rounds down after every step, and after four level-ups the interval is 417
  where the closed form gives 418.
\<close>

theorem dropInterval_not_closed_form:
  "(speedUp ^^ 4) 800 = 417 \<and> max 80 (round (800 * 0.85 ^ 4 :: real)) = 418"
proof -
  have a: "(speedUp ^^ 4) 800 = 417"
    by (simp add: speedUp_code eval_nat_numeral)
  have "round (800 * 0.85 ^ 4 :: real) = 418"
    by (rule round_unique) (simp_all add: power4_eq_xxxx)
  with a show ?thesis by simp
qed

text \<open>
  C5 as amended. In every reachable session \<open>level - 1\<close> level-ups have happened and
  \<open>dropInterval\<close> is the iterate of \<open>d \<mapsto> max(80, floor(d * 0.85))\<close> on 800 that many
  times. After \<open>k\<close> level-ups this is 800, 680, 578, 491, 417, 354, 300, 255, 216, 183,
  155, 131, 111, 94 for \<open>k = 0, \<dots>, 13\<close> and 80 from \<open>k = 14\<close> on. It is never below 80
  and never increases.
\<close>

theorem dropInterval_after_levelups:
  "(reachable s \<longrightarrow>
      1 \<le> level s \<and> dropInterval s = (speedUp ^^ nat (level s - 1)) 800)
   \<and> (speedUp ^^ k) 800 =
     (if k < 14 then [800, 680, 578, 491, 417, 354, 300, 255, 216, 183, 155, 131, 111, 94] ! k
      else 80)
   \<and> 80 \<le> (speedUp ^^ k) 800
   \<and> (speedUp ^^ Suc k) 800 \<le> (speedUp ^^ k) 800"
proof -
  have tab: "(speedUp ^^ k) 800 =
     (if k < 14 then [800, 680, 578, 491, 417, 354, 300, 255, 216, 183, 155, 131, 111, 94] ! k
      else 80)"
  proof (cases "k < 14")
    case True
    then have "(speedUp ^^ k) 800 = map (\<lambda>k. (speedUp ^^ k) 800) [0..<15] ! k"
      by (simp del: upt_Suc funpow.simps)
    also have "\<dots> = [800, 680, 578, 491, 417, 354, 300, 255, 216, 183, 155, 131, 111, 94, 80] ! k"
      by (simp only: speedUp_table)
    also have "\<dots> = [800, 680, 578, 491, 417, 354, 300, 255, 216, 183, 155, 131, 111, 94] ! k"
      using True
        nth_append[of "[800, 680, 578, 491, 417, 354, 300, 255, 216, 183, 155, 131, 111, 94]"
          "[80::int]" k]
      by simp
    finally show ?thesis using True by simp
  next
    case False
    then obtain n where "k = n + 14"
      using le_Suc_ex[of 14 k] by (auto simp: add.commute)
    with False show ?thesis by (simp add: speedUp_floor)
  qed
  have lo: "80 \<le> (speedUp ^^ j) 800" for j
    by (cases j) (simp_all add: speedUp_def)
  have "speedUp d \<le> d" if "80 \<le> d" for d
    using that by (simp add: speedUp_code)
  from this[OF lo[of k]] lo[of k] tab reachable_speed[of s] show ?thesis
    by (simp add: speedInv_def)
qed

text \<open>
  \<open>levelTwo\<close> is reachable: ten lines cleared, one level-up, and the interval is 680.
\<close>

theorem dropInterval_after_levelups_witness:
  "reachable levelTwo \<and> level levelTwo = 2 \<and> lines levelTwo = 10 \<and> dropInterval levelTwo = 680
   \<and> dropInterval levelTwo = (speedUp ^^ nat (level levelTwo - 1)) 800
   \<and> (speedUp ^^ 1) 800 = 680 \<and> (speedUp ^^ 6) 800 = 300"
proof -
  have v: "level levelTwo = 2" "lines levelTwo = 10" "dropInterval levelTwo = 680"
    by (simp_all add: levelTwo_def)
  from dropInterval_after_levelups[of levelTwo 1] reachable_levelTwo
  have a: "dropInterval levelTwo = (speedUp ^^ nat (level levelTwo - 1)) 800"
    and b: "(speedUp ^^ 1) 800 = 680"
    by simp_all
  from dropInterval_after_levelups[of levelTwo 6] have c: "(speedUp ^^ 6) 800 = 300"
    by simp
  from reachable_levelTwo v a b c show ?thesis by simp
qed

subsection \<open>Hard drop\<close>

text \<open>
  C4 as stated: \<open>hardDrop\<close> locks the piece also when it could not descend even one
  row. It does not: the lock is under \<open>if (moved)\<close>. In \<open>onFloor\<close> the O piece rests on
  the floor; \<open>hardDrop\<close> leaves the session as it is, where a lock would have merged
  the piece and spawned the I piece (\<open>onFloorLocked\<close>).
\<close>

theorem hardDrop_without_move_does_not_lock:
  "reachable onFloor
   \<and> current onFloor = Some ((pieceFromType TetO)\<lparr>py := 18\<rparr>)
   \<and> collides (grid onFloor) ((pieceFromType TetO)\<lparr>py := 19\<rparr>) = Inr True
   \<and> hardDrop TetL onFloor = Some (Inr onFloor)
   \<and> tickLock TetL onFloor = Inr onFloorLocked
   \<and> grid onFloorLocked \<noteq> grid onFloor
   \<and> current onFloorLocked \<noteq> current onFloor"
proof -
  have "play TetT TetO TetI 0 softDrop = Some (Inr onFloor)"
    by code_simp
  then have "reachable onFloor" by (rule play_reachable)
  moreover have "current onFloor = Some ((pieceFromType TetO)\<lparr>py := 18\<rparr>)
   \<and> collides (grid onFloor) ((pieceFromType TetO)\<lparr>py := 19\<rparr>) = Inr True
   \<and> hardDrop TetL onFloor = Some (Inr onFloor)
   \<and> tickLock TetL onFloor = Inr onFloorLocked
   \<and> grid onFloorLocked \<noteq> grid onFloor
   \<and> current onFloorLocked \<noteq> current onFloor"
    by code_simp
  ultimately show ?thesis by blast
qed

text \<open>
  C4 as amended. With an active piece of at least one cell on a grid of \<open>ROWS\<close> rows,
  \<open>hardDrop\<close> returns normally. It shifts the piece down by \<open>k\<close> rows, where the shifts
  by \<open>1, \<dots>, k\<close> rows are free and the shift by \<open>k + 1\<close> rows collides. If \<open>k = 0\<close>
  nothing happens: the session is unchanged and the piece stays active. If \<open>k > 0\<close>
  the piece is locked at once where it landed: its cells at rows \<open>y \<ge> 0\<close> are written
  into the grid, the full rows are removed and counted into \<open>lines\<close> and \<open>score\<close>, the
  next piece becomes the active one at the spawn anchor with \<open>holdUsed\<close> reset, a new
  next piece is drawn, and the game is over if it was before or the new active piece
  collides.
\<close>

theorem hardDrop_spec:
  assumes "int (length (grid s)) = ROWS" "current s = Some c" "shape c \<noteq> []"
  shows "\<exists>k. (\<forall>j. 1 \<le> j \<and> j \<le> k \<longrightarrow> collides (grid s) (c\<lparr>py := py c + int j\<rparr>) = Inr False)
     \<and> collides (grid s) (c\<lparr>py := py c + int k + 1\<rparr>) = Inr True
     \<and> (k = 0 \<longrightarrow> hardDrop nx s = Some (Inr s))
     \<and> (0 < k \<longrightarrow>
          (\<exists>g s1. hardDrop nx s = Some (Inr s1)
             \<and> isMerged (grid s) (c\<lparr>py := py c + int k\<rparr>) g
             \<and> grid s1 = replicate (countFull g) emptyRow @ filter (\<lambda>r. \<not> rowFull r) g
             \<and> lines s1 = lines s + int (countFull g)
             \<and> score s1 = (if countFull g = 0 then score s
                            else js_plus (score s) (js_times (scoreTable (countFull g)) (level s)))
             \<and> current s1 = Some ((next_piece s)\<lparr>px := 3, py := - 2, rot := 0\<rparr>)
             \<and> next_piece s1 = randomPiece nx \<and> holdUsed s1 = False
             \<and> over s1 = (over s \<or> collides (grid s1)
                              ((next_piece s)\<lparr>px := 3, py := - 2, rot := 0\<rparr>) = Inr True)))"
proof -
  from dropLoop_total[OF assms(1,3), of False] obtain k where
    k: "dropLoop (grid s) c False = Some (Inr (c\<lparr>py := py c + int k\<rparr>, 0 < k))"
       "\<forall>j. 1 \<le> j \<and> j \<le> k \<longrightarrow> collides (grid s) (c\<lparr>py := py c + int j\<rparr>) = Inr False"
       "collides (grid s) (c\<lparr>py := py c + int k + 1\<rparr>) = Inr True"
    by auto
  let ?d = "c\<lparr>py := py c + int k\<rparr>"
  let ?s = "s\<lparr>current := Some ?d\<rparr>"
  have still: "hardDrop nx s = Some (Inr s)" if "k = 0"
    using that assms(2) k(1) by (simp add: hardDrop_def Let_def)
  have lock: "\<exists>g s1. hardDrop nx s = Some (Inr s1)
             \<and> isMerged (grid s) ?d g
             \<and> grid s1 = replicate (countFull g) emptyRow @ filter (\<lambda>r. \<not> rowFull r) g
             \<and> lines s1 = lines s + int (countFull g)
             \<and> score s1 = (if countFull g = 0 then score s
                            else js_plus (score s) (js_times (scoreTable (countFull g)) (level s)))
             \<and> current s1 = Some ((next_piece s)\<lparr>px := 3, py := - 2, rot := 0\<rparr>)
             \<and> next_piece s1 = randomPiece nx \<and> holdUsed s1 = False
             \<and> over s1 = (over s \<or> collides (grid s1)
                              ((next_piece s)\<lparr>px := 3, py := - 2, rot := 0\<rparr>) = Inr True)"
    if pos: "0 < k"
  proof -
    from pos k(2) have free: "collides (grid ?s) ?d = Inr False" by simp
    from pos assms(2) k(1) have hd: "hardDrop nx s = Some (tickLock nx ?s)"
      by (simp add: hardDrop_def Let_def)
    have "int (length (grid ?s)) = ROWS" "current ?s = Some ?d"
      using assms(1) by simp_all
    from tickLock_effect[OF this free, of nx] obtain g s1 where
      "tickLock nx ?s = Inr s1" "isMerged (grid ?s) ?d g"
      "grid s1 = replicate (countFull g) emptyRow @ filter (\<lambda>r. \<not> rowFull r) g"
      "lines s1 = lines ?s + int (countFull g)"
      "score s1 = (if countFull g = 0 then score ?s
                    else js_plus (score ?s) (js_times (scoreTable (countFull g)) (level ?s)))"
      "current s1 = Some ((next_piece ?s)\<lparr>px := 3, py := - 2, rot := 0\<rparr>)"
      "next_piece s1 = randomPiece nx" "holdUsed s1 = False"
      "over s1 = (over ?s \<or> collides (grid s1) ((next_piece ?s)\<lparr>px := 3, py := - 2, rot := 0\<rparr>) = Inr True)"
      by blast
    then have "hardDrop nx s = Some (Inr s1)
             \<and> isMerged (grid s) ?d g
             \<and> grid s1 = replicate (countFull g) emptyRow @ filter (\<lambda>r. \<not> rowFull r) g
             \<and> lines s1 = lines s + int (countFull g)
             \<and> score s1 = (if countFull g = 0 then score s
                            else js_plus (score s) (js_times (scoreTable (countFull g)) (level s)))
             \<and> current s1 = Some ((next_piece s)\<lparr>px := 3, py := - 2, rot := 0\<rparr>)
             \<and> next_piece s1 = randomPiece nx \<and> holdUsed s1 = False
             \<and> over s1 = (over s \<or> collides (grid s1)
                              ((next_piece s)\<lparr>px := 3, py := - 2, rot := 0\<rparr>) = Inr True)"
      using hd by (simp del: if_split cong: if_cong)
    then show ?thesis by blast
  qed
  from k(2,3) still lock show ?thesis by blast
qed

text \<open>
  In \<open>beforeLock\<close> the O piece is above the board and can descend; its hard drop clears
  one row and ends in \<open>afterDrop\<close>.
\<close>

theorem hardDrop_spec_witness:
  "int (length (grid beforeLock)) = ROWS
   \<and> current beforeLock = Some ((pieceFromType TetO)\<lparr>px := 7\<rparr>)
   \<and> shape ((pieceFromType TetO)\<lparr>px := 7\<rparr>) \<noteq> []
   \<and> collides (grid beforeLock) ((pieceFromType TetO)\<lparr>px := 7, py := - 1\<rparr>) = Inr False
   \<and> hardDrop TetL beforeLock = Some (Inr afterDrop)
   \<and> lines afterDrop = 1 \<and> score afterDrop = Number 40
   \<and> current afterDrop = Some ((next_piece beforeLock)\<lparr>px := 3, py := - 2, rot := 0\<rparr>)
   \<and> next_piece afterDrop = randomPiece TetL \<and> holdUsed afterDrop = False"
proof -
  let ?c = "(pieceFromType TetO)\<lparr>px := 7\<rparr>"
  have len: "int (length (grid beforeLock)) = ROWS" by code_simp
  have cur: "current beforeLock = Some ?c" by code_simp
  have sh: "shape ?c \<noteq> []" by code_simp
  have one: "collides (grid beforeLock) (?c\<lparr>py := py ?c + int 0 + 1\<rparr>) = Inr False" by code_simp
  have one': "collides (grid beforeLock) ((pieceFromType TetO)\<lparr>px := 7, py := - 1\<rparr>) = Inr False"
    by code_simp
  have run: "hardDrop TetL beforeLock = Some (Inr afterDrop)" by code_simp
  have vals: "lines afterDrop = 1" "score afterDrop = Number 40" by code_simp+
  from hardDrop_spec[OF len cur sh, of TetL] obtain k where
    blocked: "collides (grid beforeLock) (?c\<lparr>py := py ?c + int k + 1\<rparr>) = Inr True"
    and lock: "0 < k \<longrightarrow>
          (\<exists>g s1. hardDrop TetL beforeLock = Some (Inr s1)
             \<and> current s1 = Some ((next_piece beforeLock)\<lparr>px := 3, py := - 2, rot := 0\<rparr>)
             \<and> next_piece s1 = randomPiece TetL \<and> holdUsed s1 = False)"
    by blast
  from blocked one have "0 < k" by (cases k) auto
  with lock run have "current afterDrop = Some ((next_piece beforeLock)\<lparr>px := 3, py := - 2, rot := 0\<rparr>)
     \<and> next_piece afterDrop = randomPiece TetL \<and> holdUsed afterDrop = False"
    by auto
  with len cur sh one' run vals show ?thesis by blast
qed

subsection \<open>Rotation\<close>

text \<open>
  C7. \<open>rotate\<close> maps every cell \<open>(x, y)\<close> of the shape to \<open>(2 - y, x)\<close> and leaves the
  anchor where it is. \<open>rotateCurrent\<close> tries the rotated piece at the horizontal
  offsets 0, -1, +1, -2, +2 in this order and makes the first placement that does not
  collide the active piece; if all five collide, the session is exactly as before.
\<close>

theorem rotateCurrent_spec:
  assumes "int (length (grid s)) = ROWS" "current s = Some c"
  shows "shape (rotate_piece c) = map (\<lambda>(cx, cy). (2 - cy, cx)) (shape c)
     \<and> px (rotate_piece c) = px c \<and> py (rotate_piece c) = py c
     \<and> rotateCurrent s =
         Inr (case find (\<lambda>w. collides (grid s) w = Inr False)
                     (map (\<lambda>k. (rotate_piece c)\<lparr>px := px c + k\<rparr>) [0, - 1, 1, - 2, 2]) of
                Some w \<Rightarrow> s\<lparr>current := Some w\<rparr>
              | None \<Rightarrow> s)"
  using rotateCurrent_find[OF assms] by (simp add: rotate_piece_def)

text \<open>
  In \<open>atLeftWall\<close> the rotated I piece sticks out on the left, the kick by -1 makes it
  worse, and the kick by +1 is accepted.
\<close>

theorem rotateCurrent_spec_witness:
  "int (length (grid atLeftWall)) = ROWS \<and> current atLeftWall = Some (uprightI\<lparr>py := 5\<rparr>)
   \<and> shape (rotate_piece (uprightI\<lparr>py := 5\<rparr>)) = [(2, 1), (1, 1), (0, 1), (- 1, 1)]
   \<and> collides (grid atLeftWall) (rotate_piece (uprightI\<lparr>py := 5\<rparr>)) = Inr True
   \<and> collides (grid atLeftWall) ((rotate_piece (uprightI\<lparr>py := 5\<rparr>))\<lparr>px := - 1\<rparr>) = Inr True
   \<and> collides (grid atLeftWall) ((rotate_piece (uprightI\<lparr>py := 5\<rparr>))\<lparr>px := 1\<rparr>) = Inr False
   \<and> rotateCurrent atLeftWall =
       Inr (atLeftWall\<lparr>current := Some ((rotate_piece (uprightI\<lparr>py := 5\<rparr>))\<lparr>px := 1\<rparr>)\<rparr>)"
proof -
  let ?c = "uprightI\<lparr>py := 5\<rparr>"
  have len: "int (length (grid atLeftWall)) = ROWS" by code_simp
  have cur: "current atLeftWall = Some ?c" by code_simp
  have x: "px ?c = 0" by code_simp
  have sh: "shape (rotate_piece ?c) = [(2, 1), (1, 1), (0, 1), (- 1, 1)]" by code_simp
  have c0: "collides (grid atLeftWall) (rotate_piece ?c) = Inr True" by code_simp
  have c1: "collides (grid atLeftWall) ((rotate_piece ?c)\<lparr>px := - 1\<rparr>) = Inr True" by code_simp
  have c2: "collides (grid atLeftWall) ((rotate_piece ?c)\<lparr>px := 1\<rparr>) = Inr False" by code_simp
  have same: "(rotate_piece ?c)\<lparr>px := 0\<rparr> = rotate_piece ?c" by code_simp
  from rotateCurrent_spec[OF len cur] c0 c1 c2
  have "rotateCurrent atLeftWall = Inr (atLeftWall\<lparr>current := Some ((rotate_piece ?c)\<lparr>px := 1\<rparr>)\<rparr>)"
    by (simp add: x same)
  with len cur sh c0 c1 c2 show ?thesis by blast
qed

text \<open>
  C6 as stated: if no cell of the piece has \<open>x < 0\<close>, \<open>x \<ge> COLS\<close> or \<open>y \<ge> ROWS\<close> before
  \<open>rotateCurrent\<close>, none has afterwards. This fails for cells above the board, which
  \<open>collides\<close> skips (\<open>if (gy < 0) continue\<close>) before it compares \<open>gx\<close>: in \<open>aboveBoard\<close>
  the upright I piece lies in column 1, and its rotation is accepted with a cell in
  column -1 of row -1.
\<close>

theorem rotateCurrent_leaves_bounds:
  "reachable aboveBoard \<and> current aboveBoard = Some uprightI \<and> inBounds uprightI
   \<and> rotateCurrent aboveBoard = Inr (aboveBoard\<lparr>current := Some (rotate_piece uprightI)\<rparr>)
   \<and> \<not> inBounds (rotate_piece uprightI)
   \<and> (- 1, 1) \<in> set (shape (rotate_piece uprightI))
   \<and> px (rotate_piece uprightI) + (- 1) < 0"
proof -
  have "play TetT TetI TetO 0 toLeftWall = Some (Inr aboveBoard)"
    by code_simp
  then have "reachable aboveBoard" by (rule play_reachable)
  moreover have "current aboveBoard = Some uprightI \<and> inBounds uprightI
   \<and> rotateCurrent aboveBoard = Inr (aboveBoard\<lparr>current := Some (rotate_piece uprightI)\<rparr>)
   \<and> \<not> inBounds (rotate_piece uprightI)
   \<and> (- 1, 1) \<in> set (shape (rotate_piece uprightI))
   \<and> px (rotate_piece uprightI) + (- 1) < 0"
    by code_simp
  ultimately show ?thesis by simp
qed

text \<open>
  C6 as amended. On a grid of \<open>ROWS\<close> rows \<open>rotateCurrent\<close> returns, and if every cell
  of the active piece at a row \<open>y \<ge> 0\<close> has \<open>0 \<le> x < COLS\<close> and \<open>y < ROWS\<close> before the
  call, the same holds of the active piece after it, whether the rotation was accepted
  directly, accepted with a kick, or rejected.
\<close>

theorem rotateCurrent_visible_bounds:
  assumes "int (length (grid s)) = ROWS" "current s = Some c" "visibleInBounds c"
  shows "\<exists>s1 c1. rotateCurrent s = Inr s1 \<and> current s1 = Some c1 \<and> visibleInBounds c1"
proof (cases "find (\<lambda>w. collides (grid s) w = Inr False)
                 (map (\<lambda>k. (rotate_piece c)\<lparr>px := px c + k\<rparr>) [0, - 1, 1, - 2, 2])")
  case None
  with assms show ?thesis
    by (simp add: rotateCurrent_find[OF assms(1,2)])
next
  case (Some w)
  then have "collides (grid s) w = Inr False"
    by (rule find_SomeD)
  then have "visibleInBounds w" by (rule collides_visibleInBounds)
  with Some show ?thesis
    by (simp add: rotateCurrent_find[OF assms(1,2)])
qed

theorem rotateCurrent_visible_bounds_witness:
  "int (length (grid aboveBoard)) = ROWS \<and> current aboveBoard = Some uprightI
   \<and> visibleInBounds uprightI
   \<and> (\<exists>s1 c1. rotateCurrent aboveBoard = Inr s1 \<and> current s1 = Some c1 \<and> visibleInBounds c1)"
proof -
  have len: "int (length (grid aboveBoard)) = ROWS" by code_simp
  have cur: "current aboveBoard = Some uprightI" by code_simp
  have vis: "visibleInBounds uprightI" by code_simp
  from rotateCurrent_visible_bounds[OF len cur vis] len cur vis show ?thesis
    by blast
qed

subsection \<open>Game over\<close>

text \<open>
  C3 as stated: in a reachable session, a freshly spawned piece that cannot descend by
  one row ends the game. It does not. In \<open>toppedOut\<close> column 4 is filled up to row 0
  and the fresh I piece, whose cells are in row -1, cannot descend; \<open>spawn\<close> tested the
  piece where it is, found no collision and left \<open>over\<close> false. The next gravity tick
  locks the piece (none of its cells is at a row \<open>y \<ge> 0\<close>, so nothing is merged) and
  spawns an O piece, which cannot descend either, and \<open>over\<close> is still false.
\<close>

theorem stuck_fresh_piece_is_not_game_over:
  "reachable toppedOut \<and> current toppedOut = Some (pieceFromType TetI)
   \<and> collides (grid toppedOut) ((pieceFromType TetI)\<lparr>py := - 1\<rparr>) = Inr True
   \<and> \<not> over toppedOut
   \<and> update 1000 TetT toppedOut = Inr toppedOutNext
   \<and> \<not> over toppedOutNext \<and> current toppedOutNext = Some (pieceFromType TetO)
   \<and> collides (grid toppedOutNext) ((pieceFromType TetO)\<lparr>py := - 1\<rparr>) = Inr True"
proof -
  have "play TetT TetI TetI 0 fillColumn = Some (Inr toppedOut)"
    by code_simp
  then have "reachable toppedOut" by (rule play_reachable)
  moreover have "current toppedOut = Some (pieceFromType TetI)
   \<and> collides (grid toppedOut) ((pieceFromType TetI)\<lparr>py := - 1\<rparr>) = Inr True
   \<and> \<not> over toppedOut
   \<and> update 1000 TetT toppedOut = Inr toppedOutNext
   \<and> \<not> over toppedOutNext \<and> current toppedOutNext = Some (pieceFromType TetO)
   \<and> collides (grid toppedOutNext) ((pieceFromType TetO)\<lparr>py := - 1\<rparr>) = Inr True"
    by code_simp
  ultimately show ?thesis by simp
qed

text \<open>
  C3 as amended. Every reachable session has a grid of \<open>ROWS\<close> rows, a next piece fresh
  from \<open>pieceFromType\<close> and, unless the game is over, an active piece that does not
  collide. On such a grid and with such a next piece:

  \<open>spawn\<close> returns, and afterwards the game is over exactly if it was before or the
  spawned piece collides at the spawn anchor itself, which it does exactly if one of
  its cells with offset \<open>y = 2\<close> lies on an occupied cell of row 0; only S and Z have
  such a cell.

  An active piece that does not collide where it is but cannot descend by one row, a
  fresh one included, does not end the game by that. When gravity is due, \<open>update\<close>
  locks it: its cells at rows \<open>y \<ge> 0\<close> are merged, the full rows are removed and the
  next piece is spawned. Afterwards the game is over exactly if the newly spawned piece
  collides at the anchor on the new grid, that is, has a cell on an occupied cell of
  row 0.
\<close>

theorem game_over_decided_at_anchor:
  assumes "int (length (grid s)) = ROWS" "next_piece s = pieceFromType t"
  shows "(reachable r \<longrightarrow>
          int (length (grid r)) = ROWS \<and> next_piece r = pieceFromType (ptype (next_piece r))
          \<and> (over r \<or> (\<exists>c0. current r = Some c0 \<and> collides (grid r) c0 = Inr False)))
     \<and> collides (grid s) (pieceFromType t) =
          Inr (\<exists>(cx, cy) \<in> set (SHAPES t). cy = 2 \<and> truthy (cellAt (grid s) 0 (3 + cx)))
     \<and> (\<exists>(cx, cy) \<in> set (SHAPES t). cy = 2) = (t = TetS \<or> t = TetZ)
     \<and> (\<exists>s1. spawn nx s = Inr s1 \<and> current s1 = Some (pieceFromType t)
           \<and> over s1 = (over s \<or> collides (grid s) (pieceFromType t) = Inr True))
     \<and> (\<not> paused s \<and> \<not> over s \<and> current s = Some c \<and> collides (grid s) c = Inr False
          \<and> real_of_int (dropInterval s) < dropAccum s + (time - lastTime s)
          \<and> collides (grid s) (c\<lparr>py := py c + 1\<rparr>) = Inr True \<longrightarrow>
        (\<exists>g s1. update time nx s = Inr s1 \<and> isMerged (grid s) c g
           \<and> grid s1 = replicate (countFull g) emptyRow @ filter (\<lambda>r. \<not> rowFull r) g
           \<and> current s1 = Some (pieceFromType t) \<and> next_piece s1 = randomPiece nx
           \<and> collides (grid s1) (pieceFromType t) = Inr (over s1)
           \<and> over s1 =
               (\<exists>(cx, cy) \<in> set (SHAPES t). cy = 2 \<and> truthy (cellAt (grid s1) 0 (3 + cx)))))"
proof (intro conjI impI)
  assume "reachable r"
  from reachable_inv[OF this]
  show "int (length (grid r)) = ROWS" "next_piece r = pieceFromType (ptype (next_piece r))"
    "over r \<or> (\<exists>c0. current r = Some c0 \<and> collides (grid r) c0 = Inr False)"
    by (auto simp: sessionInv_def split: option.splits)
next
  show "collides (grid s) (pieceFromType t) =
          Inr (\<exists>(cx, cy) \<in> set (SHAPES t). cy = 2 \<and> truthy (cellAt (grid s) 0 (3 + cx)))"
    by (rule collides_fresh[OF assms(1)])
next
  show "(\<exists>(cx, cy) \<in> set (SHAPES t). cy = 2) = (t = TetS \<or> t = TetZ)"
    by (cases t) simp_all
next
  from spawn_fields[OF assms(1), of nx] assms(2)
  show "\<exists>s1. spawn nx s = Inr s1 \<and> current s1 = Some (pieceFromType t)
           \<and> over s1 = (over s \<or> collides (grid s) (pieceFromType t) = Inr True)"
    by (auto simp: anchor_fresh)
next
  assume h: "\<not> paused s \<and> \<not> over s \<and> current s = Some c \<and> collides (grid s) c = Inr False
          \<and> real_of_int (dropInterval s) < dropAccum s + (time - lastTime s)
          \<and> collides (grid s) (c\<lparr>py := py c + 1\<rparr>) = Inr True"
  let ?s2 = "s\<lparr>lastTime := time, dropAccum := 0\<rparr>"
  from h have upd: "update time nx s = tickLock nx ?s2"
    by (simp add: update_def Let_def thenE_def)
  have "int (length (grid ?s2)) = ROWS" "current ?s2 = Some c" "collides (grid ?s2) c = Inr False"
    using assms(1) h by simp_all
  from tickLock_effect[OF this, of nx] obtain g s1 where
    run: "tickLock nx ?s2 = Inr s1" and mg0: "isMerged (grid ?s2) c g"
    and gr: "grid s1 = replicate (countFull g) emptyRow @ filter (\<lambda>r. \<not> rowFull r) g"
    and cu0: "current s1 = Some ((next_piece ?s2)\<lparr>px := 3, py := - 2, rot := 0\<rparr>)"
    and nx: "next_piece s1 = randomPiece nx"
    and ov0: "over s1 = (over ?s2 \<or> collides (grid s1) ((next_piece ?s2)\<lparr>px := 3, py := - 2, rot := 0\<rparr>) = Inr True)"
    by blast
  from mg0 have mg: "isMerged (grid s) c g" by simp
  from cu0 assms(2) have cu: "current s1 = Some (pieceFromType t)"
    by (simp add: anchor_fresh)
  from mg assms(1) gr length_cleared[of g] have len1: "int (length (grid s1)) = ROWS"
    by (simp add: isMerged_def)
  from ov0 h assms(2) have ov: "over s1 = (collides (grid s1) (pieceFromType t) = Inr True)"
    by (simp add: anchor_fresh)
  with collides_fresh[OF len1, of t]
  have c1: "collides (grid s1) (pieceFromType t) = Inr (over s1)"
    and c2: "over s1 =
      (\<exists>(cx, cy) \<in> set (SHAPES t). cy = 2 \<and> truthy (cellAt (grid s1) 0 (3 + cx)))"
    by simp_all
  from upd run mg gr cu nx c1 c2
  show "\<exists>g s1. update time nx s = Inr s1 \<and> isMerged (grid s) c g
           \<and> grid s1 = replicate (countFull g) emptyRow @ filter (\<lambda>r. \<not> rowFull r) g
           \<and> current s1 = Some (pieceFromType t) \<and> next_piece s1 = randomPiece nx
           \<and> collides (grid s1) (pieceFromType t) = Inr (over s1)
           \<and> over s1 =
               (\<exists>(cx, cy) \<in> set (SHAPES t). cy = 2 \<and> truthy (cellAt (grid s1) 0 (3 + cx)))"
    by (intro exI[of _ g] exI[of _ s1]) simp
qed

text \<open>
  The reachable session \<open>toppedOut\<close> satisfies every hypothesis: the tick locks the I
  piece, spawns the O piece and the game goes on. Had an S piece been next, its spawn
  would have ended the game, on the occupied cell in column 4 of row 0.
\<close>

theorem game_over_decided_at_anchor_witness:
  "reachable toppedOut
   \<and> int (length (grid toppedOut)) = ROWS \<and> next_piece toppedOut = pieceFromType TetO
   \<and> \<not> paused toppedOut \<and> \<not> over toppedOut \<and> current toppedOut = Some (pieceFromType TetI)
   \<and> collides (grid toppedOut) (pieceFromType TetI) = Inr False
   \<and> real_of_int (dropInterval toppedOut) < dropAccum toppedOut + (1000 - lastTime toppedOut)
   \<and> collides (grid toppedOut) ((pieceFromType TetI)\<lparr>py := py (pieceFromType TetI) + 1\<rparr>) = Inr True
   \<and> (\<exists>s1. update 1000 TetT toppedOut = Inr s1 \<and> current s1 = Some (pieceFromType TetO)
         \<and> \<not> over s1)
   \<and> (\<exists>s1. spawn TetT toppedOut = Inr s1 \<and> \<not> over s1)
   \<and> collides (grid toppedOut) (pieceFromType TetS) = Inr True
   \<and> (\<exists>s1. spawn TetT (toppedOut\<lparr>next_piece := pieceFromType TetS\<rparr>) = Inr s1 \<and> over s1)"
proof -
  have len: "int (length (grid toppedOut)) = ROWS" by code_simp
  have nxt: "next_piece toppedOut = pieceFromType TetO" by code_simp
  have hyp: "\<not> paused toppedOut \<and> \<not> over toppedOut \<and> current toppedOut = Some (pieceFromType TetI)
   \<and> collides (grid toppedOut) (pieceFromType TetI) = Inr False
   \<and> real_of_int (dropInterval toppedOut) < dropAccum toppedOut + (1000 - lastTime toppedOut)
   \<and> collides (grid toppedOut) ((pieceFromType TetI)\<lparr>py := py (pieceFromType TetI) + 1\<rparr>) = Inr True"
    by code_simp
  have hitS: "collides (grid toppedOut) (pieceFromType TetS) = Inr True"
    by code_simp
  note inst = game_over_decided_at_anchor[OF len nxt, of toppedOut TetT "pieceFromType TetI" 1000]
  from inst hyp have tick: "\<exists>s1. update 1000 TetT toppedOut = Inr s1
      \<and> current s1 = Some (pieceFromType TetO) \<and> \<not> over s1"
    by auto
  from inst hyp have sp: "\<exists>s1. spawn TetT toppedOut = Inr s1 \<and> \<not> over s1"
    by auto
  have len2: "int (length (grid (toppedOut\<lparr>next_piece := pieceFromType TetS\<rparr>))) = ROWS"
    using len by simp
  have nxt2: "next_piece (toppedOut\<lparr>next_piece := pieceFromType TetS\<rparr>) = pieceFromType TetS"
    by simp
  from game_over_decided_at_anchor[OF len2 nxt2, of toppedOut TetT] hitS
  have hit: "\<exists>s1. spawn TetT (toppedOut\<lparr>next_piece := pieceFromType TetS\<rparr>) = Inr s1 \<and> over s1"
    by auto
  from reachable_toppedOut len nxt hyp tick sp hitS hit show ?thesis by blast
qed

text \<open>
  C10. A piece fresh from \<open>pieceFromType\<close> of a kind other than S and Z collides with
  no grid whatever: all its cells are above the board. So whenever an event takes a
  reachable session that is not over to one that is over, be it by a natural spawn or
  by a hold swap, the active piece is a fresh S or Z piece.
\<close>

theorem only_S_and_Z_end_the_game:
  "(t \<noteq> TetS \<and> t \<noteq> TetZ \<longrightarrow>
      collides g (pieceFromType t) = Inr False
      \<and> list_all (\<lambda>(cx, cy). py (pieceFromType t) + cy < 0) (shape (pieceFromType t)))
   \<and> (reachable s \<and> \<not> over s \<and> handle e s = Some (Inr s1) \<and> over s1 \<longrightarrow>
        (\<exists>u. current s1 = Some (pieceFromType u) \<and> (u = TetS \<or> u = TetZ)))"
proof (intro conjI impI)
  assume "t \<noteq> TetS \<and> t \<noteq> TetZ"
  then show "collides g (pieceFromType t) = Inr False"
    and "list_all (\<lambda>(cx, cy). py (pieceFromType t) + cy < 0) (shape (pieceFromType t))"
    by (simp_all add: fresh_free fresh_above)
next
  assume a: "reachable s \<and> \<not> over s \<and> handle e s = Some (Inr s1) \<and> over s1"
  then have "next_piece s = pieceFromType (ptype (next_piece s))"
    using reachable_inv[of s] by (simp add: sessionInv_def)
  with a show "\<exists>u. current s1 = Some (pieceFromType u) \<and> (u = TetS \<or> u = TetZ)"
    by (intro handle_over[of e s s1]) auto
qed

text \<open>
  The I piece does not collide even with the full column of \<open>toppedOut\<close>. From
  \<open>columnBuilt\<close> the hard drop ends the game, with the S piece.
\<close>

theorem only_S_and_Z_end_the_game_witness:
  "TetI \<noteq> TetS \<and> TetI \<noteq> TetZ
   \<and> collides (grid toppedOut) (pieceFromType TetI) = Inr False
   \<and> reachable columnBuilt \<and> \<not> over columnBuilt
   \<and> handle (KeyDown Space TetO 0) columnBuilt = Some (Inr gameOverS) \<and> over gameOverS
   \<and> current gameOverS = Some (pieceFromType TetS)
   \<and> (\<exists>u. current gameOverS = Some (pieceFromType u) \<and> (u = TetS \<or> u = TetZ))"
proof -
  have ne: "TetI \<noteq> TetS \<and> TetI \<noteq> TetZ" by simp
  have no: "\<not> over columnBuilt" by code_simp
  have h: "handle (KeyDown Space TetO 0) columnBuilt = Some (Inr gameOverS)" by code_simp
  have ov: "over gameOverS" by code_simp
  have cur: "current gameOverS = Some (pieceFromType TetS)" by code_simp
  note inst = only_S_and_Z_end_the_game[of TetI "grid toppedOut" columnBuilt
      "KeyDown Space TetO 0" gameOverS]
  from inst ne have free: "collides (grid toppedOut) (pieceFromType TetI) = Inr False"
    by blast
  from inst reachable_columnBuilt no h ov
  have "\<exists>u. current gameOverS = Some (pieceFromType u) \<and> (u = TetS \<or> u = TetZ)"
    by blast
  with ne free reachable_columnBuilt no h ov cur show ?thesis by blast
qed

subsection \<open>Hold\<close>

text \<open>
  C8. Whenever \<open>holdUsed\<close> is already true, a call of \<open>doHold\<close> returns normally and
  leaves every variable of the session as it was: active piece, hold slot, grid, next
  piece, score, lines, level and all flags.
\<close>

theorem doHold_when_used_is_noop: "holdUsed s \<Longrightarrow> doHold nx s = Inr s"
  by (simp add: doHold_def)

text \<open>
  The hypothesis holds in \<open>heldOnce\<close>, which is the session that one hold after the
  start produces.
\<close>

theorem doHold_when_used_is_noop_witness:
  "thenE (reset TetT TetI 0 (initState TetO)) (doHold TetO) = Inr heldOnce
   \<and> holdUsed heldOnce \<and> doHold TetJ heldOnce = Inr heldOnce"
proof -
  have reached: "thenE (reset TetT TetI 0 (initState TetO)) (doHold TetO) = Inr heldOnce"
    by (simp add: run_defs doHold_def heldOnce_def)
  have used: "holdUsed heldOnce"
    by (simp add: heldOnce_def)
  from reached used doHold_when_used_is_noop [OF used, of TetJ] show ?thesis
    by simp
qed

end
